theory Spec2Isabelle
  imports Main "HOL-Library.Word" "HOL-Library.List_Lexorder"
begin

unbundle bit_operations_syntax

section \<open>The Vector value type of src-cpp/core/vector.hpp and vector.cpp\<close>

subsection \<open>Machine types and failures\<close>

text \<open>
  \<open>int32\<close> and \<open>int16\<close> are the fixed-width integers of vector.hpp; they are read as
  signed numbers with \<open>sint\<close>. A \<open>float\<close> is kept as its 32-bit IEEE-754 binary32 pattern,
  since \<open>serialize\<close> and \<open>deserialize\<close> copy the object representation with \<open>memcpy\<close>.
\<close>

type_synonym int32 = "32 word"
type_synonym int16 = "16 word"
type_synonym float32 = "32 word"
type_synonym byte = "8 word"

text \<open>
  Every \<open>throw\<close> of vector.cpp throws a \<open>std::runtime_error\<close> carrying a message.
  The accessors \<open>operator[]\<close>, \<open>getValue\<close>, \<open>setValue\<close> and \<open>memcpy\<close> are unchecked:
  an access outside the storage is undefined behaviour in C++ and is the outcome
  \<open>out_of_bounds\<close> here, which is not an exception.
\<close>

datatype failure = runtime_error string | out_of_bounds

text \<open>\<open>std::to_string(int)\<close>: the decimal digits, with a minus sign for negative numbers.\<close>

fun digits :: "nat \<Rightarrow> string" where
  "digits n = (if n < 10 then [''0123456789'' ! n]
               else digits (n div 10) @ [''0123456789'' ! (n mod 10)])"

declare digits.simps [simp del]

definition to_string :: "int \<Rightarrow> string" where
  "to_string i = (if i < 0 then CHR ''-'' # digits (nat (- i)) else digits (nat i))"

definition VECTOR_MAX_DIM :: int where
  "VECTOR_MAX_DIM = 16000"

subsection \<open>The class and its constructors\<close>

record Vector =
  vl_len :: int32
  dim :: int16
  unused :: int16
  data :: "float32 list"

definition validate_dimension :: "int16 \<Rightarrow> failure + unit" where
  "validate_dimension d =
     (if sint d < 1 then Inl (runtime_error ''vector must have at least 1 dimension'')
      else if sint d > VECTOR_MAX_DIM then
        Inl (runtime_error (''vector cannot have more than '' @ to_string VECTOR_MAX_DIM
                            @ '' dimensions''))
      else Inr ())"

text \<open>\<open>Vector()\<close>: the default constructor of vector.hpp, an empty vector of dimension 0.\<close>

definition Vector_default :: Vector where
  "Vector_default = \<lparr>vl_len = 0, dim = 0, unused = 0, data = []\<rparr>"

text \<open>
  \<open>Vector(int16 dimensions)\<close>: the members are initialised, the dimension is validated,
  and \<open>data.resize(dimensions)\<close> value-initialises the elements to \<open>0.0f\<close> (all bits zero).
  The dimension is at least 1 when \<open>resize\<close> is reached, so its conversion to \<open>size_t\<close>
  is \<open>nat (sint d)\<close>.
\<close>

definition Vector_ctor :: "int16 \<Rightarrow> failure + Vector" where
  "Vector_ctor dimensions =
     (case validate_dimension dimensions of
        Inl e \<Rightarrow> Inl e
      | Inr _ \<Rightarrow> Inr \<lparr>vl_len = 0, dim = dimensions, unused = 0,
                     data = replicate (nat (sint dimensions)) 0\<rparr>)"

text \<open>
  \<open>Vector(Vector&& other)\<close>: the new vector takes the members of \<open>other\<close>, whose
  \<open>std::vector\<close> is left empty and whose \<open>dim\<close> and \<open>vl_len_\<close> are set to 0. The result
  is the pair of the new vector and the moved-from one.
\<close>

definition Vector_move :: "Vector \<Rightarrow> Vector \<times> Vector" where
  "Vector_move other = (other, other\<lparr>vl_len := 0, dim := 0, data := []\<rparr>)"

subsection \<open>IEEE-754 binary32 arithmetic\<close>

text \<open>
  The built-in \<open>float\<close> operators of C++ and \<open>std::sqrt\<close> are not code of the repository.
  They are modelled on the bit pattern: bit 31 is the sign, bits 30..23 the biased
  exponent, bits 22..0 the fraction. A finite pattern denotes
  \<open>(-1)^s * fmant * 2^fexpo\<close>; results are rounded to nearest, ties to even, the default
  rounding mode. IEEE-754 does not fix which NaN an operation returns; the model returns
  the quiet NaN \<open>qnan\<close>, and no theorem below depends on that choice.
\<close>

definition fsign :: "float32 \<Rightarrow> bool" where
  "fsign x = (2 ^ 31 \<le> unat x)"

definition fexp :: "float32 \<Rightarrow> nat" where
  "fexp x = (unat x div 2 ^ 23) mod 256"

definition ffrac :: "float32 \<Rightarrow> nat" where
  "ffrac x = unat x mod 2 ^ 23"

definition mk_float :: "bool \<Rightarrow> nat \<Rightarrow> nat \<Rightarrow> float32" where
  "mk_float s e f = of_nat ((if s then 2 ^ 31 else 0) + e * 2 ^ 23 + f)"

definition is_nan :: "float32 \<Rightarrow> bool" where
  "is_nan x = (fexp x = 255 \<and> ffrac x \<noteq> 0)"

definition is_inf :: "float32 \<Rightarrow> bool" where
  "is_inf x = (fexp x = 255 \<and> ffrac x = 0)"

definition is_finite :: "float32 \<Rightarrow> bool" where
  "is_finite x = (fexp x < 255)"

definition fmant :: "float32 \<Rightarrow> nat" where
  "fmant x = (if fexp x = 0 then ffrac x else 2 ^ 23 + ffrac x)"

definition fexpo :: "float32 \<Rightarrow> int" where
  "fexpo x = (if fexp x = 0 then - 149 else int (fexp x) - 150)"

text \<open>
  Every finite float is an integer multiple of \<open>2^-149\<close>: \<open>fint x\<close> is that multiple, so
  the value of \<open>x\<close> is \<open>fint x * 2^-149\<close>.
\<close>

definition fint :: "float32 \<Rightarrow> int" where
  "fint x = (if fsign x then - 1 else 1) * int (fmant x) * 2 ^ nat (fexpo x + 149)"

definition qnan :: float32 where
  "qnan = mk_float False 255 (2 ^ 22)"

definition infinity :: "bool \<Rightarrow> float32" where
  "infinity s = mk_float s 255 0"

definition fzero :: "bool \<Rightarrow> float32" where
  "fzero s = mk_float s 0 0"

fun bitlen :: "nat \<Rightarrow> nat" where
  "bitlen n = (if n = 0 then 0 else Suc (bitlen (n div 2)))"

declare bitlen.simps [simp del]

text \<open>
  \<open>round_float s M e\<close> is the float nearest to \<open>(-1)^s * M * 2^e\<close> (ties to even) for
  \<open>M > 0\<close>: the significand keeps 24 bits, fewer below the smallest normal exponent
  \<open>-149\<close>, and a result beyond the largest exponent \<open>104\<close> overflows to infinity.
\<close>

definition round_float :: "bool \<Rightarrow> nat \<Rightarrow> int \<Rightarrow> float32" where
  "round_float s M e =
     (let et = max (e + int (bitlen M) - 24) (- 149);
          m = (if et \<le> e then M * 2 ^ nat (e - et)
               else let sh = nat (et - e); q = M div 2 ^ sh; r = M mod 2 ^ sh;
                        half = 2 ^ (sh - 1)
                    in if half < r \<or> (r = half \<and> odd q) then q + 1 else q);
          et' = (if m = 2 ^ 24 then et + 1 else et);
          m' = (if m = 2 ^ 24 then 2 ^ 23 else m)
      in if m' < 2 ^ 23 then mk_float s 0 m'
         else if 104 < et' then infinity s
         else mk_float s (nat (et' + 150)) (m' - 2 ^ 23))"

definition fneg :: "float32 \<Rightarrow> float32" where
  "fneg x = mk_float (\<not> fsign x) (fexp x) (ffrac x)"

text \<open>\<open>x + y\<close>. An exact zero sum is \<open>+0\<close> unless both operands are negative.\<close>

definition fadd :: "float32 \<Rightarrow> float32 \<Rightarrow> float32" where
  "fadd x y =
     (if is_nan x \<or> is_nan y then qnan
      else if is_inf x then (if is_inf y \<and> fsign x \<noteq> fsign y then qnan else x)
      else if is_inf y then y
      else let n = fint x + fint y
           in if n = 0 then fzero (fsign x \<and> fsign y)
              else round_float (n < 0) (nat \<bar>n\<bar>) (- 149))"

text \<open>\<open>x - y\<close> is \<open>x + (-y)\<close>.\<close>

definition fsub :: "float32 \<Rightarrow> float32 \<Rightarrow> float32" where
  "fsub x y = (if is_nan x \<or> is_nan y then qnan else fadd x (fneg y))"

text \<open>\<open>x * y\<close>.\<close>

definition fmul :: "float32 \<Rightarrow> float32 \<Rightarrow> float32" where
  "fmul x y =
     (if is_nan x \<or> is_nan y then qnan
      else if is_inf x \<or> is_inf y then
        (if fmant x = 0 \<or> fmant y = 0 then qnan else infinity (fsign x \<noteq> fsign y))
      else if fmant x = 0 \<or> fmant y = 0 then fzero (fsign x \<noteq> fsign y)
      else round_float (fsign x \<noteq> fsign y) (fmant x * fmant y) (fexpo x + fexpo y))"

text \<open>
  \<open>x / y\<close>. The quotient of the significands is taken with 64 extra bits; a last bit
  records whether the division left a remainder, which keeps the rounding exact.
\<close>

definition fdiv :: "float32 \<Rightarrow> float32 \<Rightarrow> float32" where
  "fdiv x y =
     (if is_nan x \<or> is_nan y then qnan
      else if is_inf x then (if is_inf y then qnan else infinity (fsign x \<noteq> fsign y))
      else if is_inf y then fzero (fsign x \<noteq> fsign y)
      else if fmant y = 0 then
        (if fmant x = 0 then qnan else infinity (fsign x \<noteq> fsign y))
      else if fmant x = 0 then fzero (fsign x \<noteq> fsign y)
      else let n = fmant x * 2 ^ 64; q = n div fmant y;
               sticky = (if n mod fmant y = 0 then 0 else 1)
           in round_float (fsign x \<noteq> fsign y) (2 * q + sticky) (fexpo x - fexpo y - 65))"

fun isqrt :: "nat \<Rightarrow> nat" where
  "isqrt n = (if n < 4 then (if n = 0 then 0 else 1)
              else let r = 2 * isqrt (n div 4)
                   in if (r + 1) * (r + 1) \<le> n then r + 1 else r)"

declare isqrt.simps [simp del]

text \<open>\<open>std::sqrt(x)\<close>, correctly rounded, from the integer square root.\<close>

definition fsqrt :: "float32 \<Rightarrow> float32" where
  "fsqrt x =
     (if is_nan x then qnan
      else if fmant x = 0 \<and> \<not> is_inf x then x
      else if fsign x then qnan
      else if is_inf x then x
      else let k = (if even (fexpo x) then 64 else 65);
               n = fmant x * 2 ^ k; r = isqrt n;
               sticky = (if r * r = n then 0 else 1)
           in round_float False (2 * r + sticky) ((fexpo x - int k) div 2 - 1))"

text \<open>
  The comparisons \<open>x < y\<close>, \<open>x > y\<close> and \<open>x == y\<close>: false when an operand is a NaN;
  otherwise the patterns compare as sign and magnitude, with \<open>-0\<close> equal to \<open>+0\<close>.
\<close>

definition ford :: "float32 \<Rightarrow> int" where
  "ford x = (if fsign x then - int (unat x mod 2 ^ 31) else int (unat x mod 2 ^ 31))"

definition flt :: "float32 \<Rightarrow> float32 \<Rightarrow> bool" where
  "flt x y = (\<not> is_nan x \<and> \<not> is_nan y \<and> ford x < ford y)"

definition fgt :: "float32 \<Rightarrow> float32 \<Rightarrow> bool" where
  "fgt x y = flt y x"

definition feq :: "float32 \<Rightarrow> float32 \<Rightarrow> bool" where
  "feq x y = (\<not> is_nan x \<and> \<not> is_nan y \<and> ford x = ford y)"

subsection \<open>Element access and the private checks\<close>

text \<open>
  \<open>getValue\<close> and \<open>setValue\<close> of vector.hpp index \<open>data\<close> with the unchecked
  \<open>std::vector::operator[]\<close>. \<open>validate_index\<close> is declared and defined, and called
  nowhere.
\<close>

definition getValue :: "Vector \<Rightarrow> nat \<Rightarrow> failure + float32" where
  "getValue v index =
     (if index < length (data v) then Inr (data v ! index) else Inl out_of_bounds)"

definition setValue :: "Vector \<Rightarrow> nat \<Rightarrow> float32 \<Rightarrow> failure + Vector" where
  "setValue v index val =
     (if index < length (data v) then Inr (v\<lparr>data := (data v)[index := val]\<rparr>)
      else Inl out_of_bounds)"

text \<open>The conversion of a signed integer to the 64-bit \<open>size_t\<close>.\<close>

definition size_t_of :: "int \<Rightarrow> nat" where
  "size_t_of i = nat (i mod 2 ^ 64)"

definition validate_index :: "Vector \<Rightarrow> nat \<Rightarrow> failure + unit" where
  "validate_index v index =
     (if index \<ge> size_t_of (sint (dim v)) then
        Inl (runtime_error ''vector index out of range'')
      else Inr ())"

definition check_compatibility :: "Vector \<Rightarrow> Vector \<Rightarrow> failure + unit" where
  "check_compatibility v other =
     (if dim v \<noteq> dim other then
        Inl (runtime_error (''different vector dimensions '' @ to_string (sint (dim v))
                            @ '' and '' @ to_string (sint (dim other))))
      else Inr ())"

subsection \<open>Elementwise arithmetic\<close>

text \<open>
  The loop shared by \<open>operator+\<close>, \<open>operator-\<close> and \<open>operator*\<close>:
  \<open>for (i = 0; i < data.size(); ++i) result.data[i] = data[i] op other.data[i]\<close>.
  The three loops of vector.cpp differ in the operator only, which is the parameter \<open>f\<close>.
\<close>

function elementwise_loop ::
  "(float32 \<Rightarrow> float32 \<Rightarrow> float32) \<Rightarrow> float32 list \<Rightarrow> float32 list \<Rightarrow> float32 list \<Rightarrow> nat
     \<Rightarrow> failure + float32 list" where
  "elementwise_loop f xs ys res i =
     (if i < length xs then
        (if i < length ys \<and> i < length res then
           elementwise_loop f xs ys (res[i := f (xs ! i) (ys ! i)]) (Suc i)
         else Inl out_of_bounds)
      else Inr res)"
  by pat_completeness auto
termination
  by (relation "measure (\<lambda>(f, xs, ys, res, i). length xs - i)") auto

declare elementwise_loop.simps [simp del]

definition elementwise ::
  "(float32 \<Rightarrow> float32 \<Rightarrow> float32) \<Rightarrow> Vector \<Rightarrow> Vector \<Rightarrow> failure + Vector" where
  "elementwise f v other =
     (case check_compatibility v other of
        Inl e \<Rightarrow> Inl e
      | Inr _ \<Rightarrow>
          (case Vector_ctor (dim v) of
             Inl e \<Rightarrow> Inl e
           | Inr result \<Rightarrow>
               (case elementwise_loop f (data v) (data other) (data result) 0 of
                  Inl e \<Rightarrow> Inl e
                | Inr d \<Rightarrow> Inr (result\<lparr>data := d\<rparr>))))"

definition operator_plus :: "Vector \<Rightarrow> Vector \<Rightarrow> failure + Vector" where
  "operator_plus v other = elementwise fadd v other"

definition operator_minus :: "Vector \<Rightarrow> Vector \<Rightarrow> failure + Vector" where
  "operator_minus v other = elementwise fsub v other"

definition operator_times :: "Vector \<Rightarrow> Vector \<Rightarrow> failure + Vector" where
  "operator_times v other = elementwise fmul v other"

subsection \<open>Norm, dot product and cosine similarity\<close>

text \<open>The accumulator \<open>sum\<close> of the loops below is \<open>acc\<close>, started at \<open>0.0f\<close>.\<close>

definition l2_norm :: "Vector \<Rightarrow> float32" where
  "l2_norm v = fsqrt (foldl (\<lambda>acc val. fadd acc (fmul val val)) 0 (data v))"

function dot_loop :: "float32 list \<Rightarrow> float32 list \<Rightarrow> float32 \<Rightarrow> nat \<Rightarrow> failure + float32" where
  "dot_loop xs ys acc i =
     (if i < length xs then
        (if i < length ys then dot_loop xs ys (fadd acc (fmul (xs ! i) (ys ! i))) (Suc i)
         else Inl out_of_bounds)
      else Inr acc)"
  by pat_completeness auto
termination
  by (relation "measure (\<lambda>(xs, ys, acc, i). length xs - i)") auto

declare dot_loop.simps [simp del]

definition dot_product :: "Vector \<Rightarrow> Vector \<Rightarrow> failure + float32" where
  "dot_product v other =
     (case check_compatibility v other of
        Inl e \<Rightarrow> Inl e
      | Inr _ \<Rightarrow> dot_loop (data v) (data other) 0 0)"

definition cosine_similarity :: "Vector \<Rightarrow> Vector \<Rightarrow> failure + float32" where
  "cosine_similarity v other =
     (case dot_product v other of
        Inl e \<Rightarrow> Inl e
      | Inr dot \<Rightarrow>
          (let norm_a = l2_norm v; norm_b = l2_norm other
           in if feq norm_a 0 \<or> feq norm_b 0 then Inr 0
              else Inr (fdiv dot (fmul norm_a norm_b))))"

subsection \<open>Equality and ordering\<close>

text \<open>
  \<open>std::equal(data.begin(), data.end(), other.data.begin())\<close> walks the first range and
  reads the second at the same positions, without a bound on the second.
\<close>

fun std_equal :: "float32 list \<Rightarrow> float32 list \<Rightarrow> failure + bool" where
  "std_equal [] ys = Inr True"
| "std_equal (x # xs) [] = Inl out_of_bounds"
| "std_equal (x # xs) (y # ys) = (if feq x y then std_equal xs ys else Inr False)"

definition operator_eq :: "Vector \<Rightarrow> Vector \<Rightarrow> failure + bool" where
  "operator_eq v other =
     (if dim v \<noteq> dim other then Inr False else std_equal (data v) (data other))"

text \<open>\<open>std::min\<close> on \<open>int16\<close>, a signed comparison.\<close>

definition std_min :: "int16 \<Rightarrow> int16 \<Rightarrow> int16" where
  "std_min a b = (if sint b < sint a then b else a)"

function less_loop :: "Vector \<Rightarrow> Vector \<Rightarrow> int16 \<Rightarrow> nat \<Rightarrow> failure + bool" where
  "less_loop v other min_dim i =
     (if int i < sint min_dim then
        (if i < length (data v) \<and> i < length (data other) then
           (if flt (data v ! i) (data other ! i) then Inr True
            else if fgt (data v ! i) (data other ! i) then Inr False
            else less_loop v other min_dim (Suc i))
         else Inl out_of_bounds)
      else Inr (sint (dim v) < sint (dim other)))"
  by pat_completeness auto
termination
  by (relation "measure (\<lambda>(v, other, min_dim, i). nat (sint min_dim - int i))") auto

declare less_loop.simps [simp del]

definition operator_less :: "Vector \<Rightarrow> Vector \<Rightarrow> failure + bool" where
  "operator_less v other = less_loop v other (std_min (dim v) (dim other)) 0"

subsection \<open>Binary serialization\<close>

text \<open>
  \<open>memcpy\<close> copies object representations. They are little-endian here, as on the
  x86-64 and AArch64 targets; the buffer behind a \<open>char*\<close> is the list of its bytes from
  the pointer on. Copying outside the buffer or outside the element storage is undefined
  behaviour: neither function knows the length of the buffer it is handed, and neither
  checks anything.
\<close>

definition bytes_of_int32 :: "int32 \<Rightarrow> byte list" where
  "bytes_of_int32 w = [ucast w, ucast (drop_bit 8 w), ucast (drop_bit 16 w), ucast (drop_bit 24 w)]"

definition bytes_of_int16 :: "int16 \<Rightarrow> byte list" where
  "bytes_of_int16 w = [ucast w, ucast (drop_bit 8 w)]"

definition int32_of_bytes :: "byte list \<Rightarrow> int32" where
  "int32_of_bytes bs =
     ucast (bs ! 0) OR push_bit 8 (ucast (bs ! 1)) OR push_bit 16 (ucast (bs ! 2))
       OR push_bit 24 (ucast (bs ! 3))"

definition int16_of_bytes :: "byte list \<Rightarrow> int16" where
  "int16_of_bytes bs = ucast (bs ! 0) OR push_bit 8 (ucast (bs ! 1))"

definition bytes_of_floats :: "float32 list \<Rightarrow> byte list" where
  "bytes_of_floats xs = concat (map bytes_of_int32 xs)"

fun floats_of_bytes :: "byte list \<Rightarrow> float32 list" where
  "floats_of_bytes (b0 # b1 # b2 # b3 # bs) = int32_of_bytes [b0, b1, b2, b3] # floats_of_bytes bs"
| "floats_of_bytes bs = []"

text \<open>\<open>memcpy(&x, buffer + off, n)\<close> and \<open>memcpy(buffer + off, src, n)\<close> with \<open>n = length src\<close>.\<close>

definition load :: "byte list \<Rightarrow> nat \<Rightarrow> nat \<Rightarrow> failure + byte list" where
  "load buffer off n =
     (if off + n \<le> length buffer then Inr (take n (drop off buffer)) else Inl out_of_bounds)"

definition store :: "byte list \<Rightarrow> nat \<Rightarrow> byte list \<Rightarrow> failure + byte list" where
  "store buffer off src =
     (if off + length src \<le> length buffer then
        Inr (take off buffer @ src @ drop (off + length src) buffer)
      else Inl out_of_bounds)"

text \<open>\<open>dim * sizeof(float)\<close>: \<open>dim\<close> is converted to \<open>size_t\<close> and the product wraps.\<close>

definition payload_size :: "int16 \<Rightarrow> nat" where
  "payload_size d = (size_t_of (sint d) * 4) mod 2 ^ 64"

definition serialize :: "Vector \<Rightarrow> byte list \<Rightarrow> failure + byte list" where
  "serialize v buffer =
     (case store buffer 0 (bytes_of_int32 (vl_len v)) of
        Inl e \<Rightarrow> Inl e
      | Inr b1 \<Rightarrow>
     (case store b1 4 (bytes_of_int16 (dim v)) of
        Inl e \<Rightarrow> Inl e
      | Inr b2 \<Rightarrow>
     (case store b2 6 (bytes_of_int16 (unused v)) of
        Inl e \<Rightarrow> Inl e
      | Inr b3 \<Rightarrow>
     (case load (bytes_of_floats (data v)) 0 (payload_size (dim v)) of
        Inl e \<Rightarrow> Inl e
      | Inr src \<Rightarrow> store b3 8 src))))"

definition deserialize :: "byte list \<Rightarrow> failure + Vector" where
  "deserialize buffer =
     (case load buffer 0 4 of
        Inl e \<Rightarrow> Inl e
      | Inr b_len \<Rightarrow>
     (case load buffer 4 2 of
        Inl e \<Rightarrow> Inl e
      | Inr b_dim \<Rightarrow>
     (case load buffer 6 2 of
        Inl e \<Rightarrow> Inl e
      | Inr b_unused \<Rightarrow>
     (case Vector_ctor (int16_of_bytes b_dim) of
        Inl e \<Rightarrow> Inl e
      | Inr vec \<Rightarrow>
     (case load buffer 8 (payload_size (int16_of_bytes b_dim)) of
        Inl e \<Rightarrow> Inl e
      | Inr src \<Rightarrow>
     (case store (bytes_of_floats (data vec)) 0 src of
        Inl e \<Rightarrow> Inl e
      | Inr d \<Rightarrow>
          Inr (vec\<lparr>vl_len := int32_of_bytes b_len, unused := int16_of_bytes b_unused,
                    data := floats_of_bytes d\<rparr>)))))))"

subsection \<open>The error kinds of the specification and the class invariant\<close>

text \<open>
  The code has one exception type and tells its errors apart by message. The kinds the
  specification names are the messages of \<open>validate_dimension\<close>, \<open>validate_index\<close> and
  \<open>check_compatibility\<close>; \<open>thrown\<close> holds of every exception and not of undefined
  behaviour.
\<close>

definition is_InvalidDimension :: "failure \<Rightarrow> bool" where
  "is_InvalidDimension e =
     (e = runtime_error ''vector must have at least 1 dimension'' \<or>
      e = runtime_error ''vector cannot have more than 16000 dimensions'')"

definition is_IndexOutOfRange :: "failure \<Rightarrow> bool" where
  "is_IndexOutOfRange e = (e = runtime_error ''vector index out of range'')"

definition is_DimensionMismatch :: "failure \<Rightarrow> bool" where
  "is_DimensionMismatch e =
     (case e of runtime_error m \<Rightarrow> take 28 m = ''different vector dimensions ''
              | out_of_bounds \<Rightarrow> False)"

definition thrown :: "failure \<Rightarrow> bool" where
  "thrown e = (case e of runtime_error m \<Rightarrow> True | out_of_bounds \<Rightarrow> False)"

text \<open>
  Every constructor and operation leaves \<open>data.size() == dim\<close>. A vector is \<open>valid\<close> when
  its dimension is moreover within the bounds of \<open>validate_dimension\<close>; the default
  constructor and a move leave the one other state, dimension 0 with no elements.
\<close>

definition invariant :: "Vector \<Rightarrow> bool" where
  "invariant v = (0 \<le> sint (dim v) \<and> length (data v) = nat (sint (dim v)))"

definition valid :: "Vector \<Rightarrow> bool" where
  "valid v = (1 \<le> sint (dim v) \<and> sint (dim v) \<le> VECTOR_MAX_DIM \<and>
              length (data v) = nat (sint (dim v)))"

text \<open>
  Two notions for the statements about \<open>operator<\<close>. \<open>nan_free\<close> holds of a vector none
  of whose elements is a NaN. \<open>lex_less\<close> is the comparison of \<open>operator<\<close> written as a
  recursion over the two element lists; \<open>operator_less_lex_less\<close> below proves that the
  loop of vector.cpp computes it, and it is used in proofs only.
\<close>

definition nan_free :: "Vector \<Rightarrow> bool" where
  "nan_free v = list_all (\<lambda>x. \<not> is_nan x) (data v)"

fun lex_less :: "float32 list \<Rightarrow> float32 list \<Rightarrow> bool" where
  "lex_less [] ys = (ys \<noteq> [])"
| "lex_less (x # xs) [] = False"
| "lex_less (x # xs) (y # ys) =
     (if flt x y then True else if fgt x y then False else lex_less xs ys)"

text \<open>
  \<open>exact_sum x y\<close>: the addition \<open>x + y\<close> involves no rounding and no overflow. Both
  operands and the computed sum are finite, and the value of the computed sum is the sum
  of the values.
\<close>

definition exact_sum :: "float32 \<Rightarrow> float32 \<Rightarrow> bool" where
  "exact_sum x y =
     (is_finite x \<and> is_finite y \<and> is_finite (fadd x y) \<and> fint (fadd x y) = fint x + fint y)"

text \<open>
  The vectors of the examples, built as test_vector.cpp builds them: \<open>Vector v(n)\<close>
  followed by \<open>v[i] = x\<close> for every element.
\<close>

definition vec :: "float32 list \<Rightarrow> Vector" where
  "vec xs = \<lparr>vl_len = 0, dim = of_nat (length xs), unused = 0, data = xs\<rparr>"

section \<open>Theorems\<close>

lemma to_string_VECTOR_MAX_DIM: "to_string VECTOR_MAX_DIM = ''16000''"
  by (simp add: to_string_def VECTOR_MAX_DIM_def digits.simps)

lemma validate_dimension_simps:
  "sint d < 1 \<Longrightarrow>
     validate_dimension d = Inl (runtime_error ''vector must have at least 1 dimension'')"
  "16000 < sint d \<Longrightarrow>
     validate_dimension d = Inl (runtime_error ''vector cannot have more than 16000 dimensions'')"
  "1 \<le> sint d \<Longrightarrow> sint d \<le> 16000 \<Longrightarrow> validate_dimension d = Inr ()"
  by (simp_all add: validate_dimension_def to_string_VECTOR_MAX_DIM)
     (simp_all add: VECTOR_MAX_DIM_def)

lemma Vector_ctor_simps:
  "sint d < 1 \<Longrightarrow>
     Vector_ctor d = Inl (runtime_error ''vector must have at least 1 dimension'')"
  "16000 < sint d \<Longrightarrow>
     Vector_ctor d = Inl (runtime_error ''vector cannot have more than 16000 dimensions'')"
  "1 \<le> sint d \<Longrightarrow> sint d \<le> 16000 \<Longrightarrow>
     Vector_ctor d = Inr \<lparr>vl_len = 0, dim = d, unused = 0, data = replicate (nat (sint d)) 0\<rparr>"
  by (simp_all add: Vector_ctor_def validate_dimension_simps)

lemma Vector_ctor_failure: "Vector_ctor d = Inl e \<Longrightarrow> is_InvalidDimension e"
  using Vector_ctor_simps [of d]
  by (cases "sint d < 1"; cases "16000 < sint d") (auto simp: not_less is_InvalidDimension_def)

lemma not_mismatch_simps:
  "\<not> is_DimensionMismatch out_of_bounds"
  "\<not> is_DimensionMismatch (runtime_error ''vector must have at least 1 dimension'')"
  "\<not> is_DimensionMismatch (runtime_error ''vector cannot have more than 16000 dimensions'')"
  by (simp_all add: is_DimensionMismatch_def)

lemma check_compatibility_simps:
  "dim a = dim b \<Longrightarrow> check_compatibility a b = Inr ()"
  "dim a \<noteq> dim b \<Longrightarrow> \<exists>e. check_compatibility a b = Inl e \<and> is_DimensionMismatch e"
  by (simp_all add: check_compatibility_def is_DimensionMismatch_def)

subsection \<open>The loops of the elementwise operations and of the dot product\<close>

lemma elementwise_loop_failure:
  "elementwise_loop f xs ys res i = Inl e \<Longrightarrow> e = out_of_bounds"
proof (induction f xs ys res i rule: elementwise_loop.induct)
  case (1 f xs ys res i)
  then show ?case
    by (subst (asm) (2) elementwise_loop.simps) (auto split: if_splits)
qed

lemma elementwise_loop_map2:
  "length ys = length xs \<Longrightarrow> length res = length xs \<Longrightarrow> i \<le> length xs \<Longrightarrow>
   elementwise_loop f xs ys res i = Inr (take i res @ map2 f (drop i xs) (drop i ys))"
proof (induction f xs ys res i rule: elementwise_loop.induct)
  case (1 f xs ys res i)
  show ?case
  proof (cases "i < length xs")
    case True
    with "1.prems" have step:
      "elementwise_loop f xs ys (res[i := f (xs ! i) (ys ! i)]) (Suc i) =
         Inr (take (Suc i) (res[i := f (xs ! i) (ys ! i)]) @
              map2 f (drop (Suc i) xs) (drop (Suc i) ys))"
      by (intro "1.IH") auto
    have t: "take (Suc i) (res[i := f (xs ! i) (ys ! i)]) = take i res @ [f (xs ! i) (ys ! i)]"
      using True "1.prems" by (simp add: take_Suc_conv_app_nth)
    have d: "map2 f (drop i xs) (drop i ys) =
             f (xs ! i) (ys ! i) # map2 f (drop (Suc i) xs) (drop (Suc i) ys)"
      using True "1.prems"
      by (simp add: Cons_nth_drop_Suc [symmetric])
    show ?thesis
      using True "1.prems" step t d
      by (subst elementwise_loop.simps) simp
  next
    case False
    with "1.prems" show ?thesis
      by (subst elementwise_loop.simps) simp
  qed
qed

lemma dot_loop_failure:
  "dot_loop xs ys acc i = Inl e \<Longrightarrow> e = out_of_bounds"
proof (induction xs ys acc i rule: dot_loop.induct)
  case (1 xs ys acc i)
  then show ?case
    by (subst (asm) (2) dot_loop.simps) (auto split: if_splits)
qed

lemma dot_loop_foldl:
  "length ys = length xs \<Longrightarrow> i \<le> length xs \<Longrightarrow>
   dot_loop xs ys acc i =
     Inr (foldl (\<lambda>acc (x, y). fadd acc (fmul x y)) acc (zip (drop i xs) (drop i ys)))"
proof (induction xs ys acc i rule: dot_loop.induct)
  case (1 xs ys acc i)
  show ?case
  proof (cases "i < length xs")
    case True
    have d: "zip (drop i xs) (drop i ys) =
             (xs ! i, ys ! i) # zip (drop (Suc i) xs) (drop (Suc i) ys)"
      using True "1.prems"
      by (simp add: Cons_nth_drop_Suc [symmetric])
    from True "1.prems" have
      "dot_loop xs ys (fadd acc (fmul (xs ! i) (ys ! i))) (Suc i) =
         Inr (foldl (\<lambda>acc (x, y). fadd acc (fmul x y)) (fadd acc (fmul (xs ! i) (ys ! i)))
                (zip (drop (Suc i) xs) (drop (Suc i) ys)))"
      by (intro "1.IH") auto
    with True "1.prems" d show ?thesis
      by (subst dot_loop.simps) simp
  next
    case False
    with "1.prems" show ?thesis
      by (subst dot_loop.simps) simp
  qed
qed

lemma elementwise_mismatch_iff:
  "(\<exists>e. elementwise f a b = Inl e \<and> is_DimensionMismatch e) \<longleftrightarrow> dim a \<noteq> dim b"
proof (cases "dim a = dim b")
  case True
  have "\<not> is_DimensionMismatch e" if "elementwise f a b = Inl e" for e
  proof (cases "Vector_ctor (dim a)")
    case (Inl e')
    with that True have "e = e'"
      by (simp add: elementwise_def check_compatibility_simps)
    with Inl show ?thesis
      using Vector_ctor_failure [of "dim a" e'] not_mismatch_simps
      by (auto simp: is_InvalidDimension_def)
  next
    case (Inr r)
    with that True have "elementwise_loop f (data a) (data b) (data r) 0 = Inl e"
      by (simp add: elementwise_def check_compatibility_simps split: sum.splits)
    then show ?thesis
      using elementwise_loop_failure not_mismatch_simps by blast
  qed
  with True show ?thesis by blast
next
  case False
  then show ?thesis
    using check_compatibility_simps(2) [of a b]
    by (auto simp: elementwise_def)
qed

lemma elementwise_valid:
  assumes "valid a" "valid b" "dim a = dim b"
  shows "elementwise f a b =
           Inr \<lparr>vl_len = 0, dim = dim a, unused = 0, data = map2 f (data a) (data b)\<rparr>"
proof -
  from assms have len: "length (data b) = length (data a)"
    by (simp add: valid_def)
  from assms have ctor: "Vector_ctor (dim a) =
      Inr \<lparr>vl_len = 0, dim = dim a, unused = 0, data = replicate (length (data a)) 0\<rparr>"
    by (simp add: valid_def Vector_ctor_simps VECTOR_MAX_DIM_def)
  have "elementwise_loop f (data a) (data b) (replicate (length (data a)) 0) 0 =
          Inr (map2 f (data a) (data b))"
    using elementwise_loop_map2 [of "data b" "data a" "replicate (length (data a)) 0" 0 f] len
    by simp
  with assms ctor show ?thesis
    by (simp add: elementwise_def check_compatibility_simps)
qed

lemma dot_product_mismatch_iff:
  "(\<exists>e. dot_product a b = Inl e \<and> is_DimensionMismatch e) \<longleftrightarrow> dim a \<noteq> dim b"
proof (cases "dim a = dim b")
  case True
  then have "\<not> is_DimensionMismatch e" if "dot_product a b = Inl e" for e
    using that dot_loop_failure [of "data a" "data b" 0 0 e] not_mismatch_simps(1)
    by (simp add: dot_product_def check_compatibility_simps)
  with True show ?thesis by blast
next
  case False
  then show ?thesis
    using check_compatibility_simps(2) [of a b]
    by (auto simp: dot_product_def)
qed

lemma dot_product_invariant:
  assumes "invariant a" "invariant b" "dim a = dim b"
  shows "dot_product a b =
           Inr (foldl (\<lambda>acc (x, y). fadd acc (fmul x y)) 0 (zip (data a) (data b)))"
proof -
  from assms have "length (data b) = length (data a)"
    by (simp add: invariant_def)
  then show ?thesis
    using assms(3) dot_loop_foldl [of "data b" "data a" 0 0]
    by (simp add: dot_product_def check_compatibility_simps)
qed

lemma vec_simps:
  "dim (vec xs) = of_nat (length xs)" "data (vec xs) = xs" "vl_len (vec xs) = 0" "unused (vec xs) = 0"
  by (simp_all add: vec_def)

subsection \<open>Evaluating the float operations\<close>

text \<open>
  A float operation on numerals is evaluated in two steps: the operands are decoded
  first, and the rounding is unfolded once its arguments are numerals.
\<close>

lemmas float_fields = fsign_def fexp_def ffrac_def is_nan_def is_inf_def is_finite_def
  fmant_def fexpo_def fint_def ford_def mk_float_def

lemmas float_ops = fadd_def fsub_def fmul_def fneg_def fzero_def qnan_def infinity_def
  flt_def fgt_def feq_def

lemmas float_round = round_float_def bitlen.simps mk_float_def infinity_def

lemma fadd_examples:
  "fadd 0x3F800000 0x40800000 = 0x40A00000"
  "fadd 0x40000000 0x40A00000 = 0x40E00000"
  "fadd 0x40400000 0x40C00000 = 0x41100000"
  "fadd 0 0x40800000 = 0x40800000"
  "fadd 0x40800000 0x41200000 = 0x41600000"
  "fadd 0x41600000 0x41900000 = 0x42000000"
  by (simp_all add: float_ops float_fields Let_def) (simp_all add: float_round Let_def)

lemma fsub_examples:
  "fsub 0x40800000 0x3F800000 = 0x40400000"
  "fsub 0x40A00000 0x40000000 = 0x40400000"
  "fsub 0x40C00000 0x40400000 = 0x40400000"
  by (simp_all add: float_ops float_fields Let_def) (simp_all add: float_round Let_def)

lemma fmul_examples:
  "fmul 0x3F800000 0x40800000 = 0x40800000"
  "fmul 0x40000000 0x40A00000 = 0x41200000"
  "fmul 0x40400000 0x40C00000 = 0x41900000"
  by (simp_all add: float_ops float_fields Let_def) (simp_all add: float_round Let_def)

subsection \<open>Bytes, loads and stores\<close>

lemma int32_of_bytes_inverse: "int32_of_bytes (bytes_of_int32 w) = w"
proof (rule bit_word_eqI)
  fix n :: nat
  assume "n < LENGTH(32)"
  then have n: "n < 32" by simp
  consider "n < 8" | "8 \<le> n" "n < 16" | "16 \<le> n" "n < 24" | "24 \<le> n" "n < 32"
    using n by linarith
  then show "bit (int32_of_bytes (bytes_of_int32 w)) n = bit w n"
    by cases (auto simp: int32_of_bytes_def bytes_of_int32_def bit_simps)
qed

lemma int16_of_bytes_inverse: "int16_of_bytes (bytes_of_int16 w) = w"
proof (rule bit_word_eqI)
  fix n :: nat
  assume "n < LENGTH(16)"
  then have n: "n < 16" by simp
  consider "n < 8" | "8 \<le> n" "n < 16"
    using n by linarith
  then show "bit (int16_of_bytes (bytes_of_int16 w)) n = bit w n"
    by cases (auto simp: int16_of_bytes_def bytes_of_int16_def bit_simps)
qed

lemma length_bytes_of [simp]:
  "length (bytes_of_int32 w) = 4" "length (bytes_of_int16 d) = 2"
  by (simp_all add: bytes_of_int32_def bytes_of_int16_def)

lemma length_bytes_of_floats [simp]: "length (bytes_of_floats xs) = 4 * length xs"
  by (induction xs) (simp_all add: bytes_of_floats_def)

lemma floats_of_bytes_append:
  "floats_of_bytes (bytes_of_int32 x @ bs) = x # floats_of_bytes bs"
proof -
  have "floats_of_bytes (bytes_of_int32 x @ bs) =
          int32_of_bytes (bytes_of_int32 x) # floats_of_bytes bs"
    by (simp add: bytes_of_int32_def)
  then show ?thesis
    by (simp add: int32_of_bytes_inverse)
qed

lemma floats_of_bytes_inverse: "floats_of_bytes (bytes_of_floats xs) = xs"
proof (induction xs)
  case Nil
  then show ?case by (simp add: bytes_of_floats_def)
next
  case (Cons x xs)
  then show ?case
    using floats_of_bytes_append [of x "bytes_of_floats xs"]
    by (simp add: bytes_of_floats_def)
qed

lemma payload_size_eq: "0 \<le> sint d \<Longrightarrow> payload_size d = 4 * nat (sint d)"
proof -
  assume a: "0 \<le> sint d"
  have "sint d < 2 ^ 15"
    using sint_lt [of d] by simp
  with a have "sint d mod 2 ^ 64 = sint d"
    by simp
  moreover have "nat (sint d) * 4 < 2 ^ 64"
    using \<open>sint d < 2 ^ 15\<close> a by simp
  ultimately show ?thesis
    by (simp add: payload_size_def size_t_of_def)
qed

text \<open>What \<open>serialize\<close> writes: the header, the elements, and the rest of the buffer untouched.\<close>

lemma serialize_eq:
  assumes "invariant v" "8 + 4 * length (data v) \<le> length buffer"
  shows "serialize v buffer =
           Inr (bytes_of_int32 (vl_len v) @ bytes_of_int16 (dim v) @ bytes_of_int16 (unused v)
                @ bytes_of_floats (data v) @ drop (8 + 4 * length (data v)) buffer)"
proof -
  from assms(1) have p: "payload_size (dim v) = 4 * length (data v)"
    by (simp add: invariant_def payload_size_eq)
  have l: "load (bytes_of_floats (data v)) 0 (payload_size (dim v)) = Inr (bytes_of_floats (data v))"
    by (simp add: load_def p)
  from assms(2) show ?thesis
    by (auto simp: serialize_def store_def l add.commute)
qed

text \<open>What \<open>deserialize\<close> returns on a buffer that holds the header and the payload.\<close>

lemma deserialize_eq:
  assumes "8 \<le> length buffer"
    and "1 \<le> sint (int16_of_bytes (take 2 (drop 4 buffer)))"
    and "sint (int16_of_bytes (take 2 (drop 4 buffer))) \<le> 16000"
    and "8 + 4 * nat (sint (int16_of_bytes (take 2 (drop 4 buffer)))) \<le> length buffer"
  shows "deserialize buffer =
           Inr \<lparr>vl_len = int32_of_bytes (take 4 buffer),
                dim = int16_of_bytes (take 2 (drop 4 buffer)),
                unused = int16_of_bytes (take 2 (drop 6 buffer)),
                data = floats_of_bytes
                  (take (4 * nat (sint (int16_of_bytes (take 2 (drop 4 buffer))))) (drop 8 buffer))\<rparr>"
proof -
  let ?d = "int16_of_bytes (take 2 (drop 4 buffer))"
  let ?n = "nat (sint ?d)"
  from assms have p: "payload_size ?d = 4 * ?n"
    by (simp add: payload_size_eq)
  from assms have h: "load buffer 0 4 = Inr (take 4 buffer)"
    "load buffer 4 2 = Inr (take 2 (drop 4 buffer))"
    "load buffer 6 2 = Inr (take 2 (drop 6 buffer))"
    "load buffer 8 (4 * ?n) = Inr (take (4 * ?n) (drop 8 buffer))"
    by (simp_all add: load_def)
  from assms have s: "store (bytes_of_floats (replicate ?n 0)) 0 (take (4 * ?n) (drop 8 buffer)) =
      Inr (take (4 * ?n) (drop 8 buffer))"
    by (simp add: store_def)
  from assms show ?thesis
    by (simp add: deserialize_def h p s Vector_ctor_simps)
qed

lemma deserialize_short_header:
  "length buffer < 8 \<Longrightarrow> deserialize buffer = Inl out_of_bounds"
  by (simp add: deserialize_def load_def split: sum.splits)

lemma deserialize_invalid_dimension:
  assumes "8 \<le> length buffer"
  shows "sint (int16_of_bytes (take 2 (drop 4 buffer))) < 1 \<Longrightarrow>
           deserialize buffer = Inl (runtime_error ''vector must have at least 1 dimension'')"
    and "16000 < sint (int16_of_bytes (take 2 (drop 4 buffer))) \<Longrightarrow>
           deserialize buffer = Inl (runtime_error ''vector cannot have more than 16000 dimensions'')"
  using assms by (simp_all add: deserialize_def load_def Vector_ctor_simps)

lemma deserialize_truncated:
  assumes "8 \<le> length buffer"
    and "1 \<le> sint (int16_of_bytes (take 2 (drop 4 buffer)))"
    and "sint (int16_of_bytes (take 2 (drop 4 buffer))) \<le> 16000"
    and "length buffer < 8 + 4 * nat (sint (int16_of_bytes (take 2 (drop 4 buffer))))"
  shows "deserialize buffer = Inl out_of_bounds"
proof -
  from assms have p: "payload_size (int16_of_bytes (take 2 (drop 4 buffer))) =
      4 * nat (sint (int16_of_bytes (take 2 (drop 4 buffer))))"
    by (simp add: payload_size_eq)
  from assms show ?thesis
    by (simp add: deserialize_def load_def p Vector_ctor_simps)
qed

subsection \<open>The class invariant\<close>

text \<open>
  \<open>data.size() == dim\<close> holds after every constructor and is kept by \<open>setValue\<close>, and
  every operation that returns a vector returns a valid one.
\<close>

lemma valid_invariant: "valid v \<Longrightarrow> invariant v"
  by (simp add: valid_def invariant_def)

lemma Vector_ctor_valid: "Vector_ctor d = Inr v \<Longrightarrow> valid v"
  using Vector_ctor_simps [of d]
  by (cases "sint d < 1"; cases "16000 < sint d")
     (auto simp: valid_def VECTOR_MAX_DIM_def not_less)

lemma elementwise_loop_length:
  "elementwise_loop f xs ys res i = Inr d \<Longrightarrow> length d = length res"
proof (induction f xs ys res i rule: elementwise_loop.induct)
  case (1 f xs ys res i)
  from "1.prems" show ?case
    by (subst (asm) elementwise_loop.simps) (auto split: if_splits dest: "1.IH")
qed

lemma elementwise_result_valid: "elementwise f a b = Inr r \<Longrightarrow> valid r"
proof -
  assume a: "elementwise f a b = Inr r"
  then obtain result d where c: "Vector_ctor (dim a) = Inr result"
    and l: "elementwise_loop f (data a) (data b) (data result) 0 = Inr d"
    and r: "r = result\<lparr>data := d\<rparr>"
    by (auto simp: elementwise_def split: sum.splits)
  from c have "valid result"
    by (rule Vector_ctor_valid)
  moreover from l have "length d = length (data result)"
    by (rule elementwise_loop_length)
  ultimately show ?thesis
    by (simp add: r valid_def)
qed

lemma length_floats_of_bytes: "length (floats_of_bytes bs) = length bs div 4"
  by (induction bs rule: floats_of_bytes.induct) simp_all

lemma deserialize_result_valid: "deserialize buffer = Inr v \<Longrightarrow> valid v"
proof -
  assume a: "deserialize buffer = Inr v"
  let ?d = "int16_of_bytes (take 2 (drop 4 buffer))"
  have h: "8 \<le> length buffer"
    using a deserialize_short_header [of buffer] by (cases "8 \<le> length buffer") auto
  have d: "1 \<le> sint ?d" "sint ?d \<le> 16000"
    using a h deserialize_invalid_dimension [of buffer]
    by (cases "sint ?d < 1"; cases "16000 < sint ?d"; auto)+
  have p: "8 + 4 * nat (sint ?d) \<le> length buffer"
    using a h d deserialize_truncated [of buffer]
    by (cases "8 + 4 * nat (sint ?d) \<le> length buffer") auto
  show ?thesis
    using a deserialize_eq [OF h d p] h p
    by (auto simp: valid_def VECTOR_MAX_DIM_def d length_floats_of_bytes)
qed

lemma constructors_invariant:
  "invariant Vector_default"
  "invariant v \<Longrightarrow> invariant (fst (Vector_move v)) \<and> invariant (snd (Vector_move v))"
  "invariant v \<Longrightarrow> setValue v i x = Inr v' \<Longrightarrow> invariant v'"
  by (auto simp: invariant_def Vector_default_def Vector_move_def setValue_def split: if_splits)

lemma operators_valid:
  "operator_plus a b = Inr r \<Longrightarrow> valid r"
  "operator_minus a b = Inr r \<Longrightarrow> valid r"
  "operator_times a b = Inr r \<Longrightarrow> valid r"
  by (simp_all add: operator_plus_def operator_minus_def operator_times_def
      elementwise_result_valid)

subsection \<open>The norm of a zero vector\<close>

lemma feq_zero_fields:
  assumes "feq x 0"
  shows "fexp x = 0" "ffrac x = 0"
proof -
  from assms have "unat x mod 2 ^ 31 = 0"
    by (simp add: feq_def ford_def split: if_splits)
  then obtain k where k: "unat x = 2 ^ 31 * k"
    by (auto simp: mod_eq_0_iff_dvd)
  have "unat x div 2 ^ 23 = 256 * k"
    by (simp add: k)
  then show "fexp x = 0"
    by (simp add: fexp_def)
  have "(2::nat) ^ 31 * k = 2 ^ 23 * (256 * k)"
    by simp
  then show "ffrac x = 0"
    unfolding ffrac_def k by (metis mod_mult_self1_is_0)
qed

lemma fmul_zero: "feq x 0 \<Longrightarrow> fmul x x = 0"
  using feq_zero_fields [of x]
  by (simp add: fmul_def is_nan_def is_inf_def fmant_def fzero_def mk_float_def)

lemma fadd_zero_zero: "fadd 0 0 = 0"
  by (simp add: float_ops float_fields)

lemma sum_of_squares_zero:
  "\<forall>x \<in> set xs. feq x 0 \<Longrightarrow> foldl (\<lambda>acc val. fadd acc (fmul val val)) 0 xs = 0"
  by (induction xs) (simp_all add: fmul_zero fadd_zero_zero)

lemma fsqrt_zero: "fsqrt 0 = 0"
  by (simp add: fsqrt_def float_fields)

lemma feq_zero_zero: "feq 0 0" "\<not> is_nan 0"
  by (simp_all add: float_ops float_fields)

lemma l2_norm_zero: "\<forall>x \<in> set (data v). feq x 0 \<Longrightarrow> l2_norm v = 0"
  by (simp add: l2_norm_def sum_of_squares_zero fsqrt_zero)

lemma cosine_examples:
  "fmul 0x40400000 0x40400000 = 0x41100000"
  "fmul 0x40800000 0x40800000 = 0x41800000"
  "fadd 0 0x41100000 = 0x41100000"
  "fadd 0x41100000 0x41800000 = 0x41C80000"
  "fmul 0x40A00000 0x40A00000 = 0x41C80000"
  "fmul 0 0x40400000 = 0" "fmul 0 0x40800000 = 0"
  by (simp_all add: float_ops float_fields Let_def) (simp_all add: float_round Let_def)

lemma fsqrt_25: "fsqrt 0x41C80000 = 0x40A00000"
proof -
  have "isqrt (13107200 * 2 ^ 65) = 5 * 2 ^ 42"
    by (simp add: isqrt.simps)
  then have "fsqrt 0x41C80000 = round_float False (2 * (5 * 2 ^ 42)) (- 43)"
    by (simp add: fsqrt_def float_fields Let_def)
  also have "\<dots> = 0x40A00000"
    by (simp add: float_round Let_def)
  finally show ?thesis .
qed

lemma fdiv_25_25: "fdiv 0x41C80000 0x41C80000 = 0x3F800000"
proof -
  have "fdiv 0x41C80000 0x41C80000 = round_float False (2 * 2 ^ 64) (- 65)"
    by (simp add: fdiv_def float_fields Let_def)
  also have "\<dots> = 0x3F800000"
    by (simp add: float_round Let_def)
  finally show ?thesis .
qed

subsection \<open>The loop of the comparison\<close>

lemma std_min_sint:
  "sint (std_min a b) = min (sint a) (sint b)"
  by (simp add: std_min_def min_def)

lemma less_loop_lex_less:
  assumes "invariant v" "invariant other"
    and "sint m = min (sint (dim v)) (sint (dim other))"
    and "i \<le> length (data v)" "i \<le> length (data other)"
  shows "less_loop v other m i = Inr (lex_less (drop i (data v)) (drop i (data other)))"
  using assms
proof (induction v other m i rule: less_loop.induct)
  case (1 v other m i)
  let ?xs = "data v" and ?ys = "data other"
  from "1.prems" have m: "sint m = int (min (length ?xs) (length ?ys))"
    by (auto simp: invariant_def min_def)
  show ?case
  proof (cases "int i < sint m")
    case True
    with m have lt: "i < length ?xs" "i < length ?ys"
      by simp_all
    then have d: "drop i ?xs = ?xs ! i # drop (Suc i) ?xs" "drop i ?ys = ?ys ! i # drop (Suc i) ?ys"
      by (simp_all add: Cons_nth_drop_Suc)
    show ?thesis
    proof (cases "flt (?xs ! i) (?ys ! i) \<or> fgt (?xs ! i) (?ys ! i)")
      case True
      with lt \<open>int i < sint m\<close> show ?thesis
        by (subst less_loop.simps) (auto simp: d)
    next
      case False
      with lt \<open>int i < sint m\<close> "1.prems" have
        "less_loop v other m (Suc i) =
           Inr (lex_less (drop (Suc i) ?xs) (drop (Suc i) ?ys))"
        by (intro "1.IH") auto
      with False lt \<open>int i < sint m\<close> show ?thesis
        by (subst less_loop.simps) (simp add: d)
    qed
  next
    case False
    with m "1.prems" have i: "i = length ?xs \<or> i = length ?ys"
      by (auto simp: min_def split: if_splits)
    have "lex_less (drop i ?xs) (drop i ?ys) = (sint (dim v) < sint (dim other))"
    proof (cases "i = length ?xs")
      case True
      with "1.prems" show ?thesis
        by (auto simp: invariant_def)
    next
      case False
      with i "1.prems" have "i = length ?ys" "i < length ?xs"
        by auto
      then obtain x xs' where "drop i ?xs = x # xs'"
        by (metis Cons_nth_drop_Suc)
      with \<open>i = length ?ys\<close> \<open>i < length ?xs\<close> "1.prems" show ?thesis
        by (auto simp: invariant_def)
    qed
    with False show ?thesis
      by (subst less_loop.simps) simp
  qed
qed

lemma operator_less_lex_less:
  "invariant a \<Longrightarrow> invariant b \<Longrightarrow> operator_less a b = Inr (lex_less (data a) (data b))"
  using less_loop_lex_less [of a b "std_min (dim a) (dim b)" 0]
  by (simp add: operator_less_def std_min_sint)

lemma lex_less_decided:
  "k < length xs \<Longrightarrow> k < length ys \<Longrightarrow>
   \<forall>j < k. \<not> flt (xs ! j) (ys ! j) \<and> \<not> fgt (xs ! j) (ys ! j) \<Longrightarrow>
   flt (xs ! k) (ys ! k) \<or> fgt (xs ! k) (ys ! k) \<Longrightarrow>
   lex_less xs ys = flt (xs ! k) (ys ! k)"
proof (induction xs ys arbitrary: k rule: lex_less.induct)
  case (3 x xs y ys)
  show ?case
  proof (cases k)
    case 0
    with "3.prems" show ?thesis by auto
  next
    case (Suc k')
    with "3.prems" have tie: "\<not> flt x y" "\<not> fgt x y"
      by auto
    from Suc "3.prems" have "lex_less xs ys = flt (xs ! k') (ys ! k')"
      by (intro "3.IH" tie) auto
    with Suc tie show ?thesis by simp
  qed
qed simp_all

lemma lex_less_tie:
  "\<forall>j < min (length xs) (length ys). \<not> flt (xs ! j) (ys ! j) \<and> \<not> fgt (xs ! j) (ys ! j) \<Longrightarrow>
   lex_less xs ys = (length xs < length ys)"
proof (induction xs ys rule: lex_less.induct)
  case (3 x xs y ys)
  from "3.prems" have tie: "\<not> flt x y" "\<not> fgt x y"
    by auto
  have "\<not> flt (xs ! j) (ys ! j) \<and> \<not> fgt (xs ! j) (ys ! j)"
    if "j < min (length xs) (length ys)" for j
    using "3.prems" [rule_format, of "Suc j"] that by simp
  then have "\<forall>j < min (length xs) (length ys).
      \<not> flt (xs ! j) (ys ! j) \<and> \<not> fgt (xs ! j) (ys ! j)"
    by blast
  with tie "3.IH" show ?case by simp
qed simp_all

lemma float_trichotomy:
  "\<not> is_nan x \<Longrightarrow> \<not> is_nan y \<Longrightarrow> (\<not> flt x y \<and> \<not> fgt x y) \<longleftrightarrow> feq x y"
  by (auto simp: flt_def fgt_def feq_def)

lemma lex_less_ford:
  "list_all (\<lambda>x. \<not> is_nan x) xs \<Longrightarrow> list_all (\<lambda>x. \<not> is_nan x) ys \<Longrightarrow>
   lex_less xs ys \<longleftrightarrow> map ford xs < map ford ys"
proof (induction xs ys rule: lex_less.induct)
  case (1 ys)
  then show ?case by (cases ys) simp_all
next
  case (2 x xs)
  then show ?case by simp
next
  case (3 x xs y ys)
  then show ?case by (auto simp: flt_def fgt_def)
qed

lemma lex_less_irrefl: "\<not> lex_less xs xs"
  by (induction xs) (auto simp: flt_def fgt_def)

lemma flt_examples:
  "flt 0x3F800000 0x40000000" "\<not> flt 0x40000000 0x3F800000" "fgt 0x40000000 0x3F800000"
  "\<not> flt 0x3F800000 0x3F800000" "\<not> fgt 0x3F800000 0x3F800000"
  "\<not> flt 0x40000000 0x40000000" "\<not> fgt 0x40000000 0x40000000"
  "\<not> flt 0x40000000 0x7FC00000" "\<not> fgt 0x40000000 0x7FC00000"
  "\<not> flt 0x7FC00000 0x3F800000" "\<not> fgt 0x7FC00000 0x3F800000"
  "flt 0 0x3F800000" "is_nan 0x7FC00000"
  "\<not> flt 0 0x80000000" "\<not> fgt 0 0x80000000" "\<not> flt 0x80000000 0" "\<not> fgt 0x80000000 0"
  "\<not> is_nan 0" "\<not> is_nan 0x80000000" "\<not> is_nan 0x3F800000" "\<not> is_nan 0x40000000"
  by (simp_all add: flt_def fgt_def float_fields)

lemma two: "(\<forall>j < Suc (Suc 0). P j) \<longleftrightarrow> P 0 \<and> P (Suc 0)"
  by (auto simp: less_Suc_eq)

subsection \<open>The integer square root\<close>

lemma isqrt_correct: "isqrt n * isqrt n \<le> n \<and> n < (isqrt n + 1) * (isqrt n + 1)"
proof (induction n rule: isqrt.induct)
  case (1 n)
  show ?case
  proof (cases "n < 4")
    case True
    then have "n = 0 \<or> n = 1 \<or> n = 2 \<or> n = 3"
      by linarith
    then show ?thesis
      by (subst (1 2 3 4) isqrt.simps) auto
  next
    case False
    define r where "r = isqrt (n div 4)"
    from False "1.IH" have ih: "r * r \<le> n div 4" "n div 4 < (r + 1) * (r + 1)"
      by (simp_all add: r_def)
    have lo: "(2 * r) * (2 * r) \<le> n"
    proof -
      have "(2 * r) * (2 * r) = 4 * (r * r)" by simp
      also have "\<dots> \<le> 4 * (n div 4)" using ih(1) by simp
      also have "\<dots> \<le> n" by simp
      finally show ?thesis .
    qed
    have hi: "n < (2 * r + 2) * (2 * r + 2)"
    proof -
      have "n < 4 * (n div 4 + 1)" by simp
      also have "\<dots> \<le> 4 * ((r + 1) * (r + 1))" using ih(2) by simp
      also have "\<dots> = (2 * r + 2) * (2 * r + 2)" by (simp add: algebra_simps)
      finally show ?thesis .
    qed
    have e: "isqrt n = (if (2 * r + 1) * (2 * r + 1) \<le> n then 2 * r + 1 else 2 * r)"
      using False by (subst isqrt.simps) (simp add: r_def Let_def)
    show ?thesis
    proof (cases "(2 * r + 1) * (2 * r + 1) \<le> n")
      case True
      with e hi show ?thesis by (simp add: algebra_simps)
    next
      case False
      with e lo show ?thesis by (simp add: algebra_simps not_le)
    qed
  qed
qed

subsection \<open>Rounding a representable value\<close>

text \<open>
  Rounding the value of a finite float gives the float back; this is what makes an
  exact sum invertible by the subtraction.
\<close>

lemma bitlen_eq: "2 ^ b \<le> n \<Longrightarrow> n < 2 ^ Suc b \<Longrightarrow> bitlen n = Suc b"
proof (induction b arbitrary: n)
  case 0
  then have "n = 1" by simp
  then show ?case by (simp add: bitlen.simps)
next
  case (Suc b)
  then have "2 ^ b \<le> n div 2" "n div 2 < 2 ^ Suc b"
    by simp_all
  then have "bitlen (n div 2) = Suc b"
    by (rule Suc.IH)
  moreover from Suc.prems have "n \<noteq> 0"
    by auto
  ultimately show ?case
    by (subst bitlen.simps) simp
qed

lemma bitlen_le: "n < 2 ^ b \<Longrightarrow> bitlen n \<le> b"
proof (induction b arbitrary: n)
  case 0
  then show ?case by (simp add: bitlen.simps)
next
  case (Suc b)
  then have "n div 2 < 2 ^ b"
    by simp
  then have "bitlen (n div 2) \<le> b"
    by (rule Suc.IH)
  then show ?case
    by (subst bitlen.simps) simp
qed

lemma unat_float_decompose:
  "unat x = (if fsign x then 2 ^ 31 else 0) + fexp x * 2 ^ 23 + ffrac x"
proof -
  define q where "q = unat x div 2 ^ 23"
  have "unat x < 2 ^ 32"
    using unsigned_less [of x] by simp
  then have q: "q < 512"
    unfolding q_def by (simp add: less_mult_imp_div_less)
  have s: "fsign x \<longleftrightarrow> 256 \<le> q"
    unfolding q_def fsign_def by (simp add: less_eq_div_iff_mult_less_eq)
  have u: "unat x = q * 2 ^ 23 + ffrac x"
    unfolding q_def ffrac_def by simp
  have e: "fexp x = q mod 256"
    unfolding q_def fexp_def by simp
  show ?thesis
  proof (cases "256 \<le> q")
    case True
    with q have "q mod 256 = q - 256"
      by (simp add: mod_if)
    with True have "q * 2 ^ 23 = 2 ^ 31 + (q mod 256) * 2 ^ 23"
      by (simp add: diff_mult_distrib)
    with True s u e show ?thesis by simp
  next
    case False
    then have "q mod 256 = q" by simp
    with False s u e show ?thesis by simp
  qed
qed

lemma mk_float_decode: "mk_float (fsign x) (fexp x) (ffrac x) = x"
  unfolding mk_float_def unat_float_decompose [symmetric] by simp

lemma float_field_bounds: "fexp x < 256" "ffrac x < 2 ^ 23"
  by (simp_all add: fexp_def ffrac_def)

lemma unat_mk_float:
  assumes "e < 256" "f < 2 ^ 23"
  shows "unat (mk_float s e f) = (if s then 2 ^ 31 else 0) + e * 2 ^ 23 + f"
proof -
  from assms have "e * 2 ^ 23 + f < 256 * 2 ^ 23"
    by simp
  then have "(if s then 2 ^ 31 else 0) + e * 2 ^ 23 + f < 2 ^ 32"
    by simp
  then show ?thesis
    unfolding mk_float_def by (intro of_nat_inverse [OF refl]) simp
qed

lemma mk_float_fields:
  assumes "e < 256" "f < 2 ^ 23"
  shows "fsign (mk_float s e f) = s" "fexp (mk_float s e f) = e" "ffrac (mk_float s e f) = f"
proof -
  from assms have b: "e * 2 ^ 23 + f < 2 ^ 31"
    by simp
  have d: "(e * 2 ^ 23 + f) div 2 ^ 23 = e" "(2 ^ 31 + e * 2 ^ 23 + f) div 2 ^ 23 = 256 + e"
    using assms by simp_all
  have "(2::nat) ^ 31 + e * 2 ^ 23 + f = f + (256 + e) * 2 ^ 23"
    by simp
  then have "(2 ^ 31 + e * 2 ^ 23 + f) mod 2 ^ 23 = f mod 2 ^ 23"
    by (simp only: mod_mult_self1)
  then have m: "(e * 2 ^ 23 + f) mod 2 ^ 23 = f" "(2 ^ 31 + e * 2 ^ 23 + f) mod 2 ^ 23 = f"
    using assms by simp_all
  show "fsign (mk_float s e f) = s"
    using b by (simp add: fsign_def unat_mk_float [OF assms])
  show "fexp (mk_float s e f) = e"
    using assms(1) d by (simp add: fexp_def unat_mk_float [OF assms])
  show "ffrac (mk_float s e f) = f"
    using m by (simp add: ffrac_def unat_mk_float [OF assms])
qed

lemma fneg_fields:
  "fsign (fneg y) = (\<not> fsign y)" "fexp (fneg y) = fexp y" "ffrac (fneg y) = ffrac y"
  by (simp_all add: fneg_def mk_float_fields [OF float_field_bounds])

lemma fint_fneg: "fint (fneg y) = - fint y"
  by (simp add: fint_def fmant_def fexpo_def fneg_fields)

lemma fneg_class:
  "is_nan (fneg y) = is_nan y" "is_inf (fneg y) = is_inf y" "is_finite (fneg y) = is_finite y"
  by (simp_all add: is_nan_def is_inf_def is_finite_def fneg_fields)

lemma round_float_subnormal:
  assumes "m < 2 ^ 23"
  shows "round_float s m (- 149) = mk_float s 0 m"
proof -
  from assms have "bitlen m \<le> 23"
    by (rule bitlen_le)
  then have "max (- 149 + int (bitlen m) - 24) (- 149) = - 149"
    by simp
  with assms show ?thesis
    by (simp add: round_float_def Let_def)
qed

lemma round_float_normal:
  assumes "2 ^ 23 \<le> m" "m < 2 ^ 24" "k \<le> 253"
  shows "round_float s (m * 2 ^ k) (- 149) = mk_float s (Suc k) (m - 2 ^ 23)"
proof -
  have "2 ^ (23 + k) \<le> m * 2 ^ k"
    using assms(1) by (simp add: power_add)
  moreover have "m * 2 ^ k < 2 ^ Suc (23 + k)"
    using assms(2) by (simp add: power_add)
  ultimately have "bitlen (m * 2 ^ k) = Suc (23 + k)"
    by (rule bitlen_eq)
  then have et: "max (- 149 + int (bitlen (m * 2 ^ k)) - 24) (- 149) = int k - 149"
    by simp
  have m': "(if int k - 149 \<le> - 149 then m * 2 ^ k * 2 ^ nat (- 149 - (int k - 149))
         else let sh = nat (int k - 149 - (- 149)); q = m * 2 ^ k div 2 ^ sh;
                  r = m * 2 ^ k mod 2 ^ sh; half = 2 ^ (sh - 1)
              in if half < r \<or> (r = half \<and> odd q) then q + 1 else q) = m"
  proof (cases "k = 0")
    case True
    then show ?thesis by simp
  next
    case False
    then show ?thesis by (simp add: Let_def)
  qed
  from assms have b: "m \<noteq> 2 ^ 24" "\<not> m < 2 ^ 23" "\<not> 104 < int k - 149"
    "nat (int k - 149 + 150) = Suc k"
    by simp_all
  show ?thesis
    unfolding round_float_def Let_def et m' using b by simp
qed

lemma round_float_canonical:
  assumes "is_finite x" "fmant x \<noteq> 0"
  shows "round_float (fsign x) (fmant x * 2 ^ nat (fexpo x + 149)) (- 149) = x"
proof (cases "fexp x = 0")
  case True
  then have "round_float (fsign x) (fmant x * 2 ^ nat (fexpo x + 149)) (- 149) =
      round_float (fsign x) (ffrac x) (- 149)"
    by (simp add: fmant_def fexpo_def)
  also have "\<dots> = mk_float (fsign x) 0 (ffrac x)"
    by (rule round_float_subnormal) (rule float_field_bounds)
  also have "\<dots> = x"
    using True mk_float_decode [of x] by simp
  finally show ?thesis .
next
  case False
  then obtain k where k: "fexp x = Suc k"
    by (auto simp: gr0_conv_Suc)
  with assms(1) have kb: "k \<le> 253"
    by (simp add: is_finite_def)
  have f: "ffrac x < 2 ^ 23"
    by (rule float_field_bounds)
  from k have "round_float (fsign x) (fmant x * 2 ^ nat (fexpo x + 149)) (- 149) =
      round_float (fsign x) ((2 ^ 23 + ffrac x) * 2 ^ k) (- 149)"
    by (simp add: fmant_def fexpo_def)
  also have "\<dots> = mk_float (fsign x) (Suc k) (2 ^ 23 + ffrac x - 2 ^ 23)"
    using f kb by (intro round_float_normal) simp_all
  also have "\<dots> = x"
    using k mk_float_decode [of x] by simp
  finally show ?thesis .
qed

lemma fint_sign: "fmant x \<noteq> 0 \<Longrightarrow> (fint x < 0) = fsign x"
  by (simp add: fint_def zero_less_mult_iff mult_less_0_iff)

lemma fint_abs: "nat \<bar>fint x\<bar> = fmant x * 2 ^ nat (fexpo x + 149)"
  by (simp add: fint_def abs_mult nat_mult_distrib nat_power_eq)

lemma fint_zero: "fint x = 0 \<longleftrightarrow> fmant x = 0"
  by (simp add: fint_def)

lemma round_float_fint:
  "is_finite x \<Longrightarrow> fint x \<noteq> 0 \<Longrightarrow> round_float (fint x < 0) (nat \<bar>fint x\<bar>) (- 149) = x"
  by (simp add: fint_zero fint_sign fint_abs round_float_canonical)

lemma finite_not_special: "is_finite x \<Longrightarrow> \<not> is_nan x \<and> \<not> is_inf x"
  by (simp add: is_finite_def is_nan_def is_inf_def)

lemma feq_refl: "is_finite x \<Longrightarrow> feq x x"
  by (simp add: feq_def finite_not_special)

lemma ford_zero: "is_finite x \<Longrightarrow> fmant x = 0 \<Longrightarrow> ford x = 0"
proof -
  assume "is_finite x" "fmant x = 0"
  then have "fexp x = 0" "ffrac x = 0"
    by (simp_all add: fmant_def split: if_splits)
  then have "unat x = (if fsign x then 2 ^ 31 else 0)"
    using unat_float_decompose [of x] by simp
  then show ?thesis
    by (simp add: ford_def)
qed

lemma fzero_props: "is_finite (fzero s)" "fmant (fzero s) = 0"
  by (simp_all add: fzero_def is_finite_def fmant_def mk_float_fields)

text \<open>When the sum was exact, subtracting the second operand gives back the first.\<close>

lemma fsub_fadd_exact:
  assumes "exact_sum x y"
  shows "feq (fsub (fadd x y) y) x"
proof -
  let ?s = "fadd x y"
  from assms have fin: "is_finite x" "is_finite y" "is_finite ?s"
    and ex: "fint ?s = fint x + fint y"
    by (simp_all add: exact_sum_def)
  have sp: "\<not> is_nan ?s" "\<not> is_inf ?s" "\<not> is_nan y" "\<not> is_nan (fneg y)" "\<not> is_inf (fneg y)"
    "\<not> is_nan x"
    using fin by (simp_all add: finite_not_special fneg_class)
  have n: "fint ?s + fint (fneg y) = fint x"
    by (simp add: ex fint_fneg)
  have sub: "fsub ?s y =
      (if fint x = 0 then fzero (fsign ?s \<and> fsign (fneg y))
       else round_float (fint x < 0) (nat \<bar>fint x\<bar>) (- 149))"
    unfolding fsub_def fadd_def [of ?s "fneg y"] using sp by (simp add: n Let_def)
  show ?thesis
  proof (cases "fint x = 0")
    case True
    then have "ford x = 0"
      using fin(1) by (simp add: ford_zero fint_zero)
    moreover have "ford (fzero (fsign ?s \<and> fsign (fneg y))) = 0"
      "\<not> is_nan (fzero (fsign ?s \<and> fsign (fneg y)))"
      using fzero_props by (simp_all add: ford_zero finite_not_special)
    ultimately show ?thesis
      using True sub sp by (simp add: feq_def)
  next
    case False
    with sub fin(1) show ?thesis
      by (simp add: round_float_fint feq_refl)
  qed
qed

lemma std_equal_all:
  "length xs = length ys \<Longrightarrow>
   std_equal xs ys = Inr (\<forall>i < length xs. feq (xs ! i) (ys ! i))"
proof (induction xs ys rule: std_equal.induct)
  case (3 x xs y ys)
  then show ?case
    by (auto simp: less_Suc_eq_0_disj)
qed simp_all

lemma fint_examples:
  "fint 0x3F800000 = 2 ^ 149" "fint 0x40000000 = 2 ^ 150" "fint 0x40400000 = 3 * 2 ^ 149"
  "fint 0x40800000 = 2 ^ 151" "fint 0x40A00000 = 5 * 2 ^ 149" "fint 0x40C00000 = 3 * 2 ^ 150"
  "fint 0x40E00000 = 7 * 2 ^ 149" "fint 0x41100000 = 9 * 2 ^ 149"
  "is_finite 0x3F800000" "is_finite 0x40000000" "is_finite 0x40400000" "is_finite 0x40800000"
  "is_finite 0x40A00000" "is_finite 0x40C00000" "is_finite 0x40E00000" "is_finite 0x41100000"
  by (simp_all add: float_fields)

lemma rounding_examples:
  "fadd 0x3F800000 0x4C000000 = 0x4C000000"
  "fsub 0x4C000000 0x4C000000 = 0"
  "\<not> feq 0 0x3F800000"
  by (simp_all add: float_ops float_fields Let_def) (simp_all add: float_round Let_def)

subsection \<open>C1: the serialization round trip\<close>

text \<open>
  C1. For every valid vector \<open>v\<close> (dimension in [1,16000], \<open>data.size() == dim\<close>) and
  every buffer with room for the \<open>8 + 4 * dim\<close> bytes, \<open>serialize\<close> writes those bytes
  and leaves the rest of the buffer as it was, and \<open>deserialize\<close> of the written buffer
  returns \<open>v\<close> itself: \<open>vl_len_\<close>, \<open>dim\<close>, \<open>unused\<close> and every element bit for bit,
  whatever the values of \<open>vl_len_\<close> and \<open>unused\<close>.
\<close>

theorem serialize_deserialize_roundtrip:
  "valid v \<and> 8 + 4 * length (data v) \<le> length buffer \<longrightarrow>
     (\<exists>b. serialize v buffer = Inr b \<and> length b = length buffer \<and>
          drop (8 + 4 * length (data v)) b = drop (8 + 4 * length (data v)) buffer \<and>
          deserialize b = Inr v)"
proof (intro impI, elim conjE)
  assume v: "valid v" and len: "8 + 4 * length (data v) \<le> length buffer"
  let ?b = "bytes_of_int32 (vl_len v) @ bytes_of_int16 (dim v) @ bytes_of_int16 (unused v)
              @ bytes_of_floats (data v) @ drop (8 + 4 * length (data v)) buffer"
  from v have inv: "invariant v" and n: "length (data v) = nat (sint (dim v))"
    by (simp_all add: valid_def invariant_def)
  have ser: "serialize v buffer = Inr ?b"
    using inv len by (rule serialize_eq)
  have lb: "length ?b = length buffer"
    using len by simp
  have t4: "take 4 ?b = bytes_of_int32 (vl_len v)"
    and t2: "take 2 (drop 4 ?b) = bytes_of_int16 (dim v)"
    and t6: "take 2 (drop 6 ?b) = bytes_of_int16 (unused v)"
    and t8: "take (4 * length (data v)) (drop 8 ?b) = bytes_of_floats (data v)"
    by simp_all
  have d: "int16_of_bytes (take 2 (drop 4 ?b)) = dim v"
    by (simp only: t2 int16_of_bytes_inverse)
  have "deserialize ?b =
      Inr \<lparr>vl_len = int32_of_bytes (take 4 ?b), dim = int16_of_bytes (take 2 (drop 4 ?b)),
           unused = int16_of_bytes (take 2 (drop 6 ?b)),
           data = floats_of_bytes
             (take (4 * nat (sint (int16_of_bytes (take 2 (drop 4 ?b))))) (drop 8 ?b))\<rparr>"
    using v lb len by (intro deserialize_eq) (simp_all only: d, simp_all add: valid_def VECTOR_MAX_DIM_def)
  also have "\<dots> = Inr v"
    by (simp only: d n [symmetric] t4 t6 t8 int32_of_bytes_inverse int16_of_bytes_inverse
        floats_of_bytes_inverse) simp
  finally have "deserialize ?b = Inr v" .
  moreover have "drop (8 + 4 * length (data v)) ?b = drop (8 + 4 * length (data v)) buffer"
    by simp
  ultimately show "\<exists>b. serialize v buffer = Inr b \<and> length b = length buffer \<and>
          drop (8 + 4 * length (data v)) b = drop (8 + 4 * length (data v)) buffer \<and>
          deserialize b = Inr v"
    using ser lb by blast
qed

theorem serialize_deserialize_roundtrip_witness:
  "valid \<lparr>vl_len = 20, dim = 2, unused = 7, data = [0x3F800000, 0x7FC00001]\<rparr> \<and>
   8 + 4 * length (data \<lparr>vl_len = 20, dim = 2, unused = 7, data = [0x3F800000, 0x7FC00001]\<rparr>)
     \<le> length [0xAA, 0xAA, 0xAA, 0xAA, 0xAA, 0xAA, 0xAA, 0xAA, 0xAA,
                0xAA, 0xAA, 0xAA, 0xAA, 0xAA, 0xAA, 0xAA, 0xAA, 0xAA :: byte] \<and>
   serialize \<lparr>vl_len = 20, dim = 2, unused = 7, data = [0x3F800000, 0x7FC00001]\<rparr>
       [0xAA, 0xAA, 0xAA, 0xAA, 0xAA, 0xAA, 0xAA, 0xAA, 0xAA,
        0xAA, 0xAA, 0xAA, 0xAA, 0xAA, 0xAA, 0xAA, 0xAA, 0xAA]
     = Inr [20, 0, 0, 0, 2, 0, 7, 0, 0, 0, 0x80, 0x3F, 1, 0, 0xC0, 0x7F, 0xAA, 0xAA] \<and>
   deserialize [20, 0, 0, 0, 2, 0, 7, 0, 0, 0, 0x80, 0x3F, 1, 0, 0xC0, 0x7F, 0xAA, 0xAA]
     = Inr \<lparr>vl_len = 20, dim = 2, unused = 7, data = [0x3F800000, 0x7FC00001]\<rparr>"
proof -
  let ?v = "\<lparr>vl_len = 20, dim = 2, unused = 7, data = [0x3F800000, 0x7FC00001]\<rparr>"
  let ?buffer = "[0xAA, 0xAA, 0xAA, 0xAA, 0xAA, 0xAA, 0xAA, 0xAA, 0xAA,
                  0xAA, 0xAA, 0xAA, 0xAA, 0xAA, 0xAA, 0xAA, 0xAA, 0xAA :: byte]"
  have v: "valid ?v"
    by (simp add: valid_def VECTOR_MAX_DIM_def)
  have len: "8 + 4 * length (data ?v) \<le> length ?buffer"
    by simp
  have ser: "serialize ?v ?buffer =
      Inr [20, 0, 0, 0, 2, 0, 7, 0, 0, 0, 0x80, 0x3F, 1, 0, 0xC0, 0x7F, 0xAA, 0xAA]"
    by (simp add: serialize_def store_def load_def payload_size_def size_t_of_def
        bytes_of_floats_def bytes_of_int32_def bytes_of_int16_def drop_bit_eq_div)
  from serialize_deserialize_roundtrip [of ?v ?buffer] v len ser
  show ?thesis
    by auto
qed

subsection \<open>C2: construction with a declared dimension\<close>

text \<open>
  C2. For every \<open>int16\<close> value \<open>d\<close>, \<open>Vector(d)\<close> throws the InvalidDimension error exactly
  when \<open>d < 1\<close> or \<open>d > 16000\<close> (with the first message below 1, the second above 16000);
  otherwise it returns a vector of dimension \<open>d\<close> with \<open>d\<close> elements, all \<open>0.0f\<close>.
\<close>

theorem Vector_ctor_spec:
  "(sint d < 1 \<longrightarrow>
      Vector_ctor d = Inl (runtime_error ''vector must have at least 1 dimension'')) \<and>
   (16000 < sint d \<longrightarrow>
      Vector_ctor d = Inl (runtime_error ''vector cannot have more than 16000 dimensions'')) \<and>
   ((\<exists>e. Vector_ctor d = Inl e \<and> is_InvalidDimension e) \<longleftrightarrow> (sint d < 1 \<or> 16000 < sint d)) \<and>
   (1 \<le> sint d \<and> sint d \<le> 16000 \<longrightarrow>
      (\<exists>v. Vector_ctor d = Inr v \<and> dim v = d \<and> length (data v) = nat (sint d) \<and>
           (\<forall>i < nat (sint d). data v ! i = 0) \<and> vl_len v = 0 \<and> unused v = 0))"
proof -
  consider "sint d < 1" | "16000 < sint d" | "1 \<le> sint d" "sint d \<le> 16000"
    by linarith
  then show ?thesis
  proof cases
    case 1
    then show ?thesis
      by (simp add: Vector_ctor_simps is_InvalidDimension_def)
  next
    case 2
    then show ?thesis
      by (simp add: Vector_ctor_simps is_InvalidDimension_def)
  next
    case 3
    then show ?thesis
      by (simp add: Vector_ctor_simps)
  qed
qed

theorem Vector_ctor_spec_witness:
  "Vector_ctor 0 = Inl (runtime_error ''vector must have at least 1 dimension'') \<and>
   Vector_ctor 16001 = Inl (runtime_error ''vector cannot have more than 16000 dimensions'') \<and>
   (\<exists>v. Vector_ctor 16000 = Inr v \<and> dim v = 16000 \<and> length (data v) = 16000 \<and>
        (\<forall>i < 16000. data v ! i = 0) \<and> vl_len v = 0 \<and> unused v = 0)"
  using Vector_ctor_spec [of 0] Vector_ctor_spec [of 16001] Vector_ctor_spec [of 16000]
  by simp

subsection \<open>C3: element access\<close>

text \<open>
  C3 asks \<open>getValue\<close> and \<open>setValue\<close> to throw IndexOutOfRange for an index that is not
  below the dimension. They do not: on a vector of dimension 3, index 3 is read and
  written with the unchecked \<open>operator[]\<close>, outside the storage, and no exception is
  thrown. \<open>validate_index\<close>, which would throw "vector index out of range" at this very
  input, is never called.
\<close>

theorem accessors_unchecked:
  "Vector_ctor 3 = Inr \<lparr>vl_len = 0, dim = 3, unused = 0, data = [0, 0, 0]\<rparr> \<and>
   getValue \<lparr>vl_len = 0, dim = 3, unused = 0, data = [0, 0, 0]\<rparr> 3 = Inl out_of_bounds \<and>
   setValue \<lparr>vl_len = 0, dim = 3, unused = 0, data = [0, 0, 0]\<rparr> 3 0x3F800000 = Inl out_of_bounds \<and>
   \<not> thrown out_of_bounds \<and> \<not> is_IndexOutOfRange out_of_bounds \<and>
   validate_index \<lparr>vl_len = 0, dim = 3, unused = 0, data = [0, 0, 0]\<rparr> 3
     = Inl (runtime_error ''vector index out of range'') \<and>
   is_IndexOutOfRange (runtime_error ''vector index out of range'') \<and>
   getValue \<lparr>vl_len = 0, dim = 3, unused = 0, data = [0, 0, 0]\<rparr> 2 = Inr 0 \<and>
   setValue \<lparr>vl_len = 0, dim = 3, unused = 0, data = [0, 0, 0]\<rparr> 2 0x3F800000
     = Inr \<lparr>vl_len = 0, dim = 3, unused = 0, data = [0, 0, 0x3F800000]\<rparr>"
  by (simp add: Vector_ctor_simps getValue_def setValue_def thrown_def validate_index_def
      size_t_of_def is_IndexOutOfRange_def numeral_3_eq_3 numeral_2_eq_2)

subsection \<open>C4: elementwise arithmetic and the dot product\<close>

text \<open>
  C4. For all vectors \<open>a\<close> and \<open>b\<close>, each of \<open>a + b\<close>, \<open>a - b\<close>, \<open>a * b\<close> and
  \<open>dot_product\<close> throws the DimensionMismatch error exactly when the dimensions differ.
  For valid vectors of equal dimension the three elementwise operations return a vector of
  that dimension whose \<open>i\<close>-th element is the binary32 sum, difference or product of the
  \<open>i\<close>-th elements, and \<open>dot_product\<close> returns the sum of the products accumulated from
  left to right, starting at \<open>0.0f\<close>.
\<close>

theorem elementwise_dot_product_spec:
  "((\<exists>e. operator_plus a b = Inl e \<and> is_DimensionMismatch e) \<longleftrightarrow> dim a \<noteq> dim b) \<and>
   ((\<exists>e. operator_minus a b = Inl e \<and> is_DimensionMismatch e) \<longleftrightarrow> dim a \<noteq> dim b) \<and>
   ((\<exists>e. operator_times a b = Inl e \<and> is_DimensionMismatch e) \<longleftrightarrow> dim a \<noteq> dim b) \<and>
   ((\<exists>e. dot_product a b = Inl e \<and> is_DimensionMismatch e) \<longleftrightarrow> dim a \<noteq> dim b) \<and>
   (valid a \<and> valid b \<and> dim a = dim b \<longrightarrow>
      (\<exists>r. operator_plus a b = Inr r \<and> dim r = dim a \<and> length (data r) = length (data a) \<and>
           (\<forall>i < length (data a). data r ! i = fadd (data a ! i) (data b ! i))) \<and>
      (\<exists>r. operator_minus a b = Inr r \<and> dim r = dim a \<and> length (data r) = length (data a) \<and>
           (\<forall>i < length (data a). data r ! i = fsub (data a ! i) (data b ! i))) \<and>
      (\<exists>r. operator_times a b = Inr r \<and> dim r = dim a \<and> length (data r) = length (data a) \<and>
           (\<forall>i < length (data a). data r ! i = fmul (data a ! i) (data b ! i))) \<and>
      dot_product a b =
        Inr (foldl (\<lambda>acc (x, y). fadd acc (fmul x y)) 0 (zip (data a) (data b))))"
proof -
  have ok: "\<exists>r. elementwise f a b = Inr r \<and> dim r = dim a \<and> length (data r) = length (data a) \<and>
           (\<forall>i < length (data a). data r ! i = f (data a ! i) (data b ! i))"
    if "valid a" "valid b" "dim a = dim b" for f
  proof -
    from that have "length (data b) = length (data a)"
      by (simp add: valid_def)
    then show ?thesis
      using elementwise_valid [OF that, of f] by simp
  qed
  have dot: "dot_product a b =
        Inr (foldl (\<lambda>acc (x, y). fadd acc (fmul x y)) 0 (zip (data a) (data b)))"
    if "valid a" "valid b" "dim a = dim b"
    using that by (intro dot_product_invariant) (simp_all add: valid_def invariant_def)
  show ?thesis
    unfolding operator_plus_def operator_minus_def operator_times_def
    using elementwise_mismatch_iff dot_product_mismatch_iff ok dot
    by blast
qed

theorem elementwise_dot_product_spec_witness:
  "valid (vec [0x3F800000, 0x40000000, 0x40400000]) \<and>
   valid (vec [0x40800000, 0x40A00000, 0x40C00000]) \<and>
   (\<exists>r. operator_plus (vec [0x3F800000, 0x40000000, 0x40400000])
                       (vec [0x40800000, 0x40A00000, 0x40C00000]) = Inr r \<and>
        dim r = 3 \<and> length (data r) = 3 \<and>
        data r ! 0 = 0x40A00000 \<and> data r ! 1 = 0x40E00000 \<and> data r ! 2 = 0x41100000) \<and>
   (\<exists>r. operator_minus (vec [0x40800000, 0x40A00000, 0x40C00000])
                        (vec [0x3F800000, 0x40000000, 0x40400000]) = Inr r \<and>
        dim r = 3 \<and> length (data r) = 3 \<and>
        data r ! 0 = 0x40400000 \<and> data r ! 1 = 0x40400000 \<and> data r ! 2 = 0x40400000) \<and>
   (\<exists>r. operator_times (vec [0x3F800000, 0x40000000, 0x40400000])
                        (vec [0x40800000, 0x40A00000, 0x40C00000]) = Inr r \<and>
        dim r = 3 \<and> length (data r) = 3 \<and>
        data r ! 0 = 0x40800000 \<and> data r ! 1 = 0x41200000 \<and> data r ! 2 = 0x41900000) \<and>
   dot_product (vec [0x3F800000, 0x40000000, 0x40400000])
               (vec [0x40800000, 0x40A00000, 0x40C00000]) = Inr 0x42000000 \<and>
   (\<exists>e. operator_plus (vec [0x3F800000, 0x40000000])
                       (vec [0x3F800000, 0x40000000, 0x40400000]) = Inl e \<and>
        is_DimensionMismatch e)"
proof -
  let ?a = "vec [0x3F800000, 0x40000000, 0x40400000]"
  let ?b = "vec [0x40800000, 0x40A00000, 0x40C00000]"
  let ?c = "vec [0x3F800000, 0x40000000]"
  have v: "valid ?a" "valid ?b" "dim ?a = dim ?b" "dim ?b = dim ?a" "dim ?c \<noteq> dim ?a"
    by (simp_all add: valid_def vec_simps VECTOR_MAX_DIM_def)
  have three: "(\<forall>i < Suc (Suc (Suc 0)). P i) \<longleftrightarrow> P 0 \<and> P 1 \<and> P 2" for P
    by (auto simp: less_Suc_eq numeral_2_eq_2)
  show ?thesis
    using elementwise_dot_product_spec [of ?a ?b] elementwise_dot_product_spec [of ?b ?a]
      elementwise_dot_product_spec [of ?c ?a] v
    by (auto simp: vec_simps three fadd_examples fsub_examples fmul_examples)
qed

subsection \<open>C5: cosine similarity\<close>

text \<open>
  C5. For vectors \<open>a\<close> and \<open>b\<close> of equal dimension (with \<open>data.size() == dim\<close>),
  \<open>cosine_similarity\<close> returns \<open>0.0f\<close> when \<open>l2_norm(a) == 0\<close> or \<open>l2_norm(b) == 0\<close>,
  and otherwise \<open>dot_product(a,b) / (l2_norm(a) * l2_norm(b))\<close>. The returned \<open>0.0f\<close> is
  not a NaN, and the norm of a vector whose elements all equal zero is zero, so the
  similarity of a zero vector with any vector is \<open>0.0f\<close>.
\<close>

theorem cosine_similarity_spec:
  "invariant a \<and> invariant b \<and> dim a = dim b \<longrightarrow>
     (\<exists>dot. dot_product a b = Inr dot \<and>
        cosine_similarity a b =
          Inr (if feq (l2_norm a) 0 \<or> feq (l2_norm b) 0 then 0
               else fdiv dot (fmul (l2_norm a) (l2_norm b)))) \<and>
     (feq (l2_norm a) 0 \<or> feq (l2_norm b) 0 \<longrightarrow> cosine_similarity a b = Inr 0) \<and>
     ((\<forall>x \<in> set (data a). feq x 0) \<or> (\<forall>x \<in> set (data b). feq x 0) \<longrightarrow>
        cosine_similarity a b = Inr 0) \<and>
     \<not> is_nan 0 \<and> feq 0 0"
proof (intro impI, elim conjE)
  assume h: "invariant a" "invariant b" "dim a = dim b"
  let ?dot = "foldl (\<lambda>acc (x, y). fadd acc (fmul x y)) 0 (zip (data a) (data b))"
  have d: "dot_product a b = Inr ?dot"
    using h by (rule dot_product_invariant)
  then have c: "cosine_similarity a b =
          Inr (if feq (l2_norm a) 0 \<or> feq (l2_norm b) 0 then 0
               else fdiv ?dot (fmul (l2_norm a) (l2_norm b)))"
    by (simp add: cosine_similarity_def Let_def)
  have z: "feq (l2_norm a) 0 \<or> feq (l2_norm b) 0"
    if "(\<forall>x \<in> set (data a). feq x 0) \<or> (\<forall>x \<in> set (data b). feq x 0)"
    using that l2_norm_zero [of a] l2_norm_zero [of b] feq_zero_zero(1) by auto
  show "(\<exists>dot. dot_product a b = Inr dot \<and>
        cosine_similarity a b =
          Inr (if feq (l2_norm a) 0 \<or> feq (l2_norm b) 0 then 0
               else fdiv dot (fmul (l2_norm a) (l2_norm b)))) \<and>
     (feq (l2_norm a) 0 \<or> feq (l2_norm b) 0 \<longrightarrow> cosine_similarity a b = Inr 0) \<and>
     ((\<forall>x \<in> set (data a). feq x 0) \<or> (\<forall>x \<in> set (data b). feq x 0) \<longrightarrow>
        cosine_similarity a b = Inr 0) \<and>
     \<not> is_nan 0 \<and> feq 0 0"
    using d c z feq_zero_zero by auto
qed

theorem cosine_similarity_spec_witness:
  "invariant (vec [0, 0]) \<and> invariant (vec [0x40400000, 0x40800000]) \<and>
   dim (vec [0, 0]) = dim (vec [0x40400000, 0x40800000]) \<and>
   feq (l2_norm (vec [0, 0])) 0 \<and>
   cosine_similarity (vec [0, 0]) (vec [0x40400000, 0x40800000]) = Inr 0 \<and>
   l2_norm (vec [0x40400000, 0x40800000]) = 0x40A00000 \<and>
   cosine_similarity (vec [0x40400000, 0x40800000]) (vec [0x40400000, 0x40800000])
     = Inr 0x3F800000"
proof -
  let ?z = "vec [0, 0]" and ?v = "vec [0x40400000, 0x40800000]"
  have i: "invariant ?z" "invariant ?v" "dim ?z = dim ?v"
    by (simp_all add: invariant_def vec_simps)
  have n: "l2_norm ?z = 0" "l2_norm ?v = 0x40A00000"
    by (simp_all add: l2_norm_def vec_simps cosine_examples fsqrt_25 fsqrt_zero
        fmul_zero feq_zero_zero fadd_zero_zero)
  have f: "\<not> feq 0x40A00000 0"
    by (simp add: float_ops float_fields)
  have d: "dot_product ?v ?v = Inr 0x41C80000"
    using dot_product_invariant [OF i(2) i(2)] by (simp add: vec_simps cosine_examples)
  show ?thesis
    using cosine_similarity_spec [of ?z ?v] cosine_similarity_spec [of ?v ?v] i n f d
    by (simp add: feq_zero_zero cosine_examples fdiv_25_25)
qed

subsection \<open>C6: the lexicographic comparison\<close>

text \<open>
  C6. For all vectors \<open>a\<close> and \<open>b\<close> (with \<open>data.size() == dim\<close>), \<open>a < b\<close> is decided by
  the first index \<open>k\<close> below both dimensions at which the elements differ, that is, at
  which one is less than the other: the result is \<open>a[k] < b[k]\<close>. When no such index
  exists the result is \<open>a.dim < b.dim\<close>, so the vector of smaller dimension comes first.
  For elements that are not NaN, neither being less than the other is float equality.
  The witness evaluates \<open>[1,2] < [2,1]\<close> and \<open>[1,2] < [1,2,0]\<close>.
\<close>

theorem operator_less_lexicographic:
  "(invariant a \<and> invariant b \<and> k < min (length (data a)) (length (data b)) \<and>
    (\<forall>j < k. \<not> flt (data a ! j) (data b ! j) \<and> \<not> fgt (data a ! j) (data b ! j)) \<and>
    (flt (data a ! k) (data b ! k) \<or> fgt (data a ! k) (data b ! k)) \<longrightarrow>
      operator_less a b = Inr (flt (data a ! k) (data b ! k))) \<and>
   (invariant a \<and> invariant b \<and>
    (\<forall>j < min (length (data a)) (length (data b)).
        \<not> flt (data a ! j) (data b ! j) \<and> \<not> fgt (data a ! j) (data b ! j)) \<longrightarrow>
      operator_less a b = Inr (sint (dim a) < sint (dim b))) \<and>
   (\<not> is_nan x \<and> \<not> is_nan y \<longrightarrow> ((\<not> flt x y \<and> \<not> fgt x y) \<longleftrightarrow> feq x y))"
proof -
  have len: "(length (data a) < length (data b)) = (sint (dim a) < sint (dim b))"
    if "invariant a" "invariant b"
    using that by (auto simp: invariant_def)
  show ?thesis
    using operator_less_lex_less [of a b] lex_less_decided [of k "data a" "data b"]
      lex_less_tie [of "data a" "data b"] len float_trichotomy [of x y]
    by auto
qed

theorem operator_less_lexicographic_witness:
  "operator_less (vec [0x3F800000, 0x40000000]) (vec [0x40000000, 0x3F800000]) = Inr True \<and>
   operator_less (vec [0x40000000, 0x3F800000]) (vec [0x3F800000, 0x40000000]) = Inr False \<and>
   operator_less (vec [0x3F800000, 0x40000000]) (vec [0x3F800000, 0x40000000, 0]) = Inr True \<and>
   operator_less (vec [0x3F800000, 0x40000000, 0]) (vec [0x3F800000, 0x40000000]) = Inr False \<and>
   operator_less (vec [0x3F800000, 0x40000000]) (vec [0x3F800000, 0x40000000]) = Inr False"
proof -
  let ?a = "vec [0x3F800000, 0x40000000]" and ?b = "vec [0x40000000, 0x3F800000]"
    and ?c = "vec [0x3F800000, 0x40000000, 0]"
  have i: "invariant ?a" "invariant ?b" "invariant ?c"
    by (simp_all add: invariant_def vec_simps)
  show ?thesis
    using operator_less_lexicographic [of ?a ?b 0] operator_less_lexicographic [of ?b ?a 0]
      operator_less_lexicographic [of ?a ?c] operator_less_lexicographic [of ?c ?a]
      operator_less_lexicographic [of ?a ?a] i
    by (simp add: vec_simps flt_examples two)
qed

subsection \<open>C7: the comparison as a strict weak ordering\<close>

text \<open>
  C7 as stated fails on vectors with NaN elements: a NaN is neither less nor greater than
  any element, so the loop steps over it as over a tie. With \<open>a = [2,0]\<close>, \<open>n = [NaN,1]\<close>
  and \<open>b = [1,2]\<close>, \<open>a < n\<close> and \<open>n < b\<close> hold and \<open>a < b\<close> does not.
\<close>

theorem operator_less_nan_counterexample:
  "operator_less (vec [0x40000000, 0]) (vec [0x7FC00000, 0x3F800000]) = Inr True \<and>
   operator_less (vec [0x7FC00000, 0x3F800000]) (vec [0x3F800000, 0x40000000]) = Inr True \<and>
   operator_less (vec [0x40000000, 0]) (vec [0x3F800000, 0x40000000]) = Inr False \<and>
   is_nan 0x7FC00000"
proof -
  have i: "invariant (vec [0x40000000, 0])" "invariant (vec [0x7FC00000, 0x3F800000])"
    "invariant (vec [0x3F800000, 0x40000000])"
    by (simp_all add: invariant_def vec_simps)
  show ?thesis
    by (simp add: operator_less_lex_less i vec_simps flt_examples)
qed

text \<open>
  C7, amended. \<open>operator<\<close> is irreflexive on all vectors, and on vectors none of whose
  elements is a NaN, of equal or differing dimension, it is a strict weak ordering: it is
  transitive, and so is incomparability (neither \<open>a < b\<close> nor \<open>b < a\<close>).
\<close>

theorem operator_less_strict_weak_order:
  "(invariant a \<longrightarrow> operator_less a a = Inr False) \<and>
   (invariant a \<and> invariant b \<longrightarrow> (\<exists>r. operator_less a b = Inr r)) \<and>
   (invariant a \<and> invariant b \<and> invariant c \<and> nan_free a \<and> nan_free b \<and> nan_free c \<longrightarrow>
      (operator_less a b = Inr True \<and> operator_less b c = Inr True \<longrightarrow>
         operator_less a c = Inr True) \<and>
      (operator_less a b = Inr False \<and> operator_less b a = Inr False \<and>
       operator_less b c = Inr False \<and> operator_less c b = Inr False \<longrightarrow>
         operator_less a c = Inr False \<and> operator_less c a = Inr False))"
proof -
  have "lex_less (data a) (data c)"
    if "nan_free a" "nan_free b" "nan_free c" "lex_less (data a) (data b)" "lex_less (data b) (data c)"
    using that by (simp add: nan_free_def lex_less_ford)
  moreover have "\<not> lex_less (data a) (data c) \<and> \<not> lex_less (data c) (data a)"
    if "nan_free a" "nan_free b" "nan_free c"
      "\<not> lex_less (data a) (data b)" "\<not> lex_less (data b) (data a)"
      "\<not> lex_less (data b) (data c)" "\<not> lex_less (data c) (data b)"
    using that by (simp add: nan_free_def lex_less_ford)
  ultimately show ?thesis
    using operator_less_lex_less [of a b] operator_less_lex_less [of b c]
      operator_less_lex_less [of a c] operator_less_lex_less [of b a]
      operator_less_lex_less [of c b] operator_less_lex_less [of c a]
      operator_less_lex_less [of a a] lex_less_irrefl [of "data a"]
    by auto
qed

theorem operator_less_strict_weak_order_witness:
  "operator_less (vec [0x3F800000, 0x40000000]) (vec [0x3F800000, 0x40000000, 0]) = Inr True \<and>
   operator_less (vec [0x3F800000, 0x40000000, 0]) (vec [0x40000000, 0x3F800000]) = Inr True \<and>
   operator_less (vec [0x3F800000, 0x40000000]) (vec [0x40000000, 0x3F800000]) = Inr True \<and>
   operator_less (vec [0]) (vec [0x80000000]) = Inr False \<and>
   operator_less (vec [0x80000000]) (vec [0]) = Inr False \<and>
   operator_less (vec [0]) (vec [0]) = Inr False"
proof -
  let ?a = "vec [0x3F800000, 0x40000000]" and ?b = "vec [0x3F800000, 0x40000000, 0]"
    and ?c = "vec [0x40000000, 0x3F800000]" and ?p = "vec [0]" and ?n = "vec [0x80000000]"
  have i: "invariant ?a" "invariant ?b" "invariant ?c" "invariant ?p" "invariant ?n"
    by (simp_all add: invariant_def vec_simps)
  have f: "nan_free ?a" "nan_free ?b" "nan_free ?c" "nan_free ?p" "nan_free ?n"
    by (simp_all add: nan_free_def vec_simps flt_examples)
  have l: "operator_less ?a ?b = Inr True" "operator_less ?b ?c = Inr True"
    "operator_less ?p ?n = Inr False" "operator_less ?n ?p = Inr False"
    by (simp_all add: operator_less_lex_less i vec_simps flt_examples)
  show ?thesis
    using operator_less_strict_weak_order [of ?a ?b ?c]
      operator_less_strict_weak_order [of ?p ?n ?p] i f l
    by simp
qed

subsection \<open>C8: deserializing malformed input\<close>

text \<open>
  C8 as stated fails: \<open>deserialize\<close> is handed a \<open>const char*\<close> and no length, so it cannot
  tell a truncated buffer. On the 8-byte buffer below the header declares one element;
  the element is read past the end of the buffer and nothing is thrown.
\<close>

theorem deserialize_truncated_counterexample:
  "length [0, 0, 0, 0, 1, 0, 0, 0 :: byte] = 8 \<and>
   sint (int16_of_bytes (take 2 (drop 4 [0, 0, 0, 0, 1, 0, 0, 0]))) = 1 \<and>
   deserialize [0, 0, 0, 0, 1, 0, 0, 0] = Inl out_of_bounds \<and>
   \<not> thrown out_of_bounds"
  by (simp add: deserialize_def load_def Vector_ctor_simps int16_of_bytes_def
      payload_size_def size_t_of_def thrown_def)

text \<open>
  C8, amended. When the buffer holds the 8-byte header and the dimension read from it is
  below 1 or above 16000, \<open>deserialize\<close> throws the InvalidDimension error. There is no
  TruncatedInput error: a buffer shorter than the header, or shorter than the header plus
  4 bytes per declared element, is read past its end, which is undefined behaviour and
  not an exception. On a buffer that holds the header and the declared elements,
  \<open>deserialize\<close> returns the vector with the header's fields and those elements.
\<close>

theorem deserialize_spec:
  "(8 \<le> length buffer \<and> sint (int16_of_bytes (take 2 (drop 4 buffer))) < 1 \<longrightarrow>
      deserialize buffer = Inl (runtime_error ''vector must have at least 1 dimension'')) \<and>
   (8 \<le> length buffer \<and> 16000 < sint (int16_of_bytes (take 2 (drop 4 buffer))) \<longrightarrow>
      deserialize buffer =
        Inl (runtime_error ''vector cannot have more than 16000 dimensions'')) \<and>
   is_InvalidDimension (runtime_error ''vector must have at least 1 dimension'') \<and>
   is_InvalidDimension (runtime_error ''vector cannot have more than 16000 dimensions'') \<and>
   (8 \<le> length buffer \<and> 1 \<le> sint (int16_of_bytes (take 2 (drop 4 buffer))) \<and>
    sint (int16_of_bytes (take 2 (drop 4 buffer))) \<le> 16000 \<and>
    length buffer < 8 + 4 * nat (sint (int16_of_bytes (take 2 (drop 4 buffer)))) \<longrightarrow>
      deserialize buffer = Inl out_of_bounds) \<and>
   (length buffer < 8 \<longrightarrow> deserialize buffer = Inl out_of_bounds) \<and>
   \<not> thrown out_of_bounds \<and>
   (8 \<le> length buffer \<and> 1 \<le> sint (int16_of_bytes (take 2 (drop 4 buffer))) \<and>
    sint (int16_of_bytes (take 2 (drop 4 buffer))) \<le> 16000 \<and>
    8 + 4 * nat (sint (int16_of_bytes (take 2 (drop 4 buffer)))) \<le> length buffer \<longrightarrow>
      (\<exists>v. deserialize buffer = Inr v \<and> dim v = int16_of_bytes (take 2 (drop 4 buffer)) \<and>
           length (data v) = nat (sint (dim v)) \<and>
           vl_len v = int32_of_bytes (take 4 buffer) \<and>
           unused v = int16_of_bytes (take 2 (drop 6 buffer)) \<and>
           data v = floats_of_bytes (take (4 * nat (sint (dim v))) (drop 8 buffer))))"
proof -
  let ?d = "int16_of_bytes (take 2 (drop 4 buffer))"
  have l: "length (floats_of_bytes bs) = length bs div 4" for bs
    by (induction bs rule: floats_of_bytes.induct) simp_all
  have k: "is_InvalidDimension (runtime_error ''vector must have at least 1 dimension'')"
    "is_InvalidDimension (runtime_error ''vector cannot have more than 16000 dimensions'')"
    "\<not> thrown out_of_bounds"
    by (simp_all add: is_InvalidDimension_def thrown_def)
  have 4: "\<exists>v. deserialize buffer = Inr v \<and> dim v = ?d \<and>
           length (data v) = nat (sint (dim v)) \<and>
           vl_len v = int32_of_bytes (take 4 buffer) \<and>
           unused v = int16_of_bytes (take 2 (drop 6 buffer)) \<and>
           data v = floats_of_bytes (take (4 * nat (sint (dim v))) (drop 8 buffer))"
    if "8 \<le> length buffer" "1 \<le> sint ?d" "sint ?d \<le> 16000"
       "8 + 4 * nat (sint ?d) \<le> length buffer"
    using that deserialize_eq [OF that] by (simp add: l)
  show ?thesis
    using k 4 deserialize_invalid_dimension [of buffer] deserialize_truncated [of buffer]
      deserialize_short_header [of buffer]
    by blast
qed

theorem deserialize_spec_witness:
  "deserialize [0, 0, 0, 0, 0, 0, 0, 0] =
     Inl (runtime_error ''vector must have at least 1 dimension'') \<and>
   deserialize [0, 0, 0, 0, 0x81, 0x3E, 0, 0] =
     Inl (runtime_error ''vector cannot have more than 16000 dimensions'') \<and>
   deserialize [0, 0, 0, 0, 1, 0, 0, 0] = Inl out_of_bounds \<and>
   deserialize [0, 0, 0, 0, 1, 0] = Inl out_of_bounds \<and>
   (\<exists>v. deserialize [0, 0, 0, 0, 1, 0, 0, 0, 0, 0, 0x80, 0x3F] = Inr v \<and>
        dim v = 1 \<and> vl_len v = 0 \<and> unused v = 0 \<and> data v = [0x3F800000])"
proof -
  have d: "int16_of_bytes [0, 0] = 0" "int16_of_bytes [0x81, 0x3E] = 16001"
    "int16_of_bytes [1, 0] = 1" "int32_of_bytes [0, 0, 0, 0] = 0"
    "int32_of_bytes [0, 0, 0x80, 0x3F] = 0x3F800000"
    by (simp_all add: int16_of_bytes_def int32_of_bytes_def push_bit_eq_mult)
  show ?thesis
    using deserialize_spec [of "[0, 0, 0, 0, 0, 0, 0, 0]"]
      deserialize_spec [of "[0, 0, 0, 0, 0x81, 0x3E, 0, 0]"]
      deserialize_spec [of "[0, 0, 0, 0, 1, 0, 0, 0]"]
      deserialize_spec [of "[0, 0, 0, 0, 1, 0]"]
      deserialize_spec [of "[0, 0, 0, 0, 1, 0, 0, 0, 0, 0, 0x80, 0x3F]"]
    by (auto simp: d)
qed

subsection \<open>C9: addition followed by subtraction\<close>

text \<open>
  C9 as stated fails: binary32 addition rounds. With \<open>a = [1]\<close> and \<open>b = [33554432]\<close>
  (\<open>2^25\<close>), \<open>a + b\<close> is \<open>[33554432]\<close>, since \<open>33554433\<close> needs 26 bits, and
  \<open>(a + b) - b\<close> is \<open>[0]\<close>, which is not equal to \<open>a\<close>.
\<close>

theorem add_then_subtract_counterexample:
  "valid (vec [0x3F800000]) \<and> valid (vec [0x4C000000]) \<and>
   operator_plus (vec [0x3F800000]) (vec [0x4C000000]) = Inr (vec [0x4C000000]) \<and>
   operator_minus (vec [0x4C000000]) (vec [0x4C000000]) = Inr (vec [0]) \<and>
   operator_eq (vec [0]) (vec [0x3F800000]) = Inr False"
proof -
  have v: "valid (vec [0x3F800000])" "valid (vec [0x4C000000])"
    "dim (vec [0x3F800000]) = dim (vec [0x4C000000])"
    by (simp_all add: valid_def vec_simps VECTOR_MAX_DIM_def)
  have p: "operator_plus (vec [0x3F800000]) (vec [0x4C000000]) = Inr (vec [0x4C000000])"
    unfolding operator_plus_def elementwise_valid [OF v]
    by (simp add: vec_def rounding_examples)
  have m: "operator_minus (vec [0x4C000000]) (vec [0x4C000000]) = Inr (vec [0])"
    unfolding operator_minus_def elementwise_valid [OF v(2) v(2) refl]
    by (simp add: vec_def rounding_examples)
  have e: "operator_eq (vec [0]) (vec [0x3F800000]) = Inr False"
    by (simp add: operator_eq_def vec_def rounding_examples)
  from v p m e show ?thesis by simp
qed

text \<open>
  C9, amended. For valid vectors \<open>a\<close> and \<open>b\<close> of equal dimension, \<open>(a + b) - b\<close> succeeds
  and has the dimension of \<open>a\<close>; its \<open>i\<close>-th element is the binary32 difference of the
  binary32 sum of the \<open>i\<close>-th elements and \<open>b\<close>'s \<open>i\<close>-th element. It is equal to \<open>a\<close>
  under \<open>operator==\<close> when every element sum is exact, that is, finite and not rounded.
\<close>

theorem add_then_subtract_spec:
  "(valid a \<and> valid b \<and> dim a = dim b \<longrightarrow>
      (\<exists>r s. operator_plus a b = Inr r \<and> operator_minus r b = Inr s \<and> dim s = dim a \<and>
             length (data s) = length (data a) \<and>
             (\<forall>i < length (data a).
                 data s ! i = fsub (fadd (data a ! i) (data b ! i)) (data b ! i)))) \<and>
   (valid a \<and> valid b \<and> dim a = dim b \<and>
    (\<forall>i < length (data a). exact_sum (data a ! i) (data b ! i)) \<longrightarrow>
      (\<exists>r s. operator_plus a b = Inr r \<and> operator_minus r b = Inr s \<and>
             operator_eq s a = Inr True))"
proof -
  let ?r = "\<lparr>vl_len = 0, dim = dim a, unused = 0, data = map2 fadd (data a) (data b)\<rparr>"
  let ?s = "\<lparr>vl_len = 0, dim = dim a, unused = 0,
             data = map2 fsub (map2 fadd (data a) (data b)) (data b)\<rparr>"
  have main: "operator_plus a b = Inr ?r \<and> operator_minus ?r b = Inr ?s \<and>
      length (data b) = length (data a)"
    if v: "valid a" "valid b" "dim a = dim b"
  proof -
    from v have len: "length (data b) = length (data a)"
      by (simp add: valid_def)
    from v len have vr: "valid ?r" "dim ?r = dim b"
      by (simp_all add: valid_def)
    have "elementwise fsub ?r b = Inr ?s"
      using elementwise_valid [OF vr(1) v(2) vr(2), of fsub] by simp
    then show ?thesis
      using elementwise_valid [OF v, of fadd] len
      by (simp add: operator_plus_def operator_minus_def)
  qed
  have eq: "operator_eq ?s a = Inr True"
    if v: "length (data b) = length (data a)"
      and e: "\<forall>i < length (data a). exact_sum (data a ! i) (data b ! i)"
  proof -
    have "feq (data ?s ! i) (data a ! i)" if "i < length (data a)" for i
      using that v e fsub_fadd_exact [of "data a ! i" "data b ! i"] by simp
    then show ?thesis
      using v by (simp add: operator_eq_def std_equal_all)
  qed
  have 1: "\<exists>r s. operator_plus a b = Inr r \<and> operator_minus r b = Inr s \<and> dim s = dim a \<and>
             length (data s) = length (data a) \<and>
             (\<forall>i < length (data a).
                 data s ! i = fsub (fadd (data a ! i) (data b ! i)) (data b ! i))"
    if v: "valid a" "valid b" "dim a = dim b"
    using main [OF v] by (intro exI [of _ ?r] exI [of _ ?s]) simp
  have 2: "\<exists>r s. operator_plus a b = Inr r \<and> operator_minus r b = Inr s \<and>
             operator_eq s a = Inr True"
    if v: "valid a" "valid b" "dim a = dim b"
      and e: "\<forall>i < length (data a). exact_sum (data a ! i) (data b ! i)"
    using main [OF v] eq [OF _ e] by (intro exI [of _ ?r] exI [of _ ?s]) simp
  show ?thesis
    using 1 2 by blast
qed

theorem add_then_subtract_spec_witness:
  "valid (vec [0x3F800000, 0x40000000, 0x40400000]) \<and>
   valid (vec [0x40800000, 0x40A00000, 0x40C00000]) \<and>
   exact_sum 0x3F800000 0x40800000 \<and> exact_sum 0x40000000 0x40A00000 \<and>
   exact_sum 0x40400000 0x40C00000 \<and>
   (\<exists>r s. operator_plus (vec [0x3F800000, 0x40000000, 0x40400000])
                         (vec [0x40800000, 0x40A00000, 0x40C00000]) = Inr r \<and>
          operator_minus r (vec [0x40800000, 0x40A00000, 0x40C00000]) = Inr s \<and>
          operator_eq s (vec [0x3F800000, 0x40000000, 0x40400000]) = Inr True)"
proof -
  let ?a = "vec [0x3F800000, 0x40000000, 0x40400000]"
  let ?b = "vec [0x40800000, 0x40A00000, 0x40C00000]"
  have v: "valid ?a" "valid ?b" "dim ?a = dim ?b"
    by (simp_all add: valid_def vec_simps VECTOR_MAX_DIM_def)
  have e: "exact_sum 0x3F800000 0x40800000" "exact_sum 0x40000000 0x40A00000"
    "exact_sum 0x40400000 0x40C00000"
    by (simp_all add: exact_sum_def fadd_examples fint_examples)
  have three: "(\<forall>i < Suc (Suc (Suc 0)). P i) \<longleftrightarrow> P 0 \<and> P 1 \<and> P 2" for P
    by (auto simp: less_Suc_eq numeral_2_eq_2)
  show ?thesis
    using add_then_subtract_spec [of ?a ?b] v e
    by (simp add: vec_simps three)
qed

subsection \<open>C10: elementwise arithmetic on vectors of dimension 0\<close>

text \<open>
  C10. When both operands have dimension 0, as after the default constructor or a move,
  \<open>a + b\<close>, \<open>a - b\<close> and \<open>a * b\<close> pass the compatibility check and then throw
  "vector must have at least 1 dimension" from the construction of the result: an
  InvalidDimension error, not a DimensionMismatch error, and no result.
\<close>

theorem elementwise_dimension_zero:
  "dim a = 0 \<and> dim b = 0 \<longrightarrow>
     operator_plus a b = Inl (runtime_error ''vector must have at least 1 dimension'') \<and>
     operator_minus a b = Inl (runtime_error ''vector must have at least 1 dimension'') \<and>
     operator_times a b = Inl (runtime_error ''vector must have at least 1 dimension'') \<and>
     is_InvalidDimension (runtime_error ''vector must have at least 1 dimension'') \<and>
     \<not> is_DimensionMismatch (runtime_error ''vector must have at least 1 dimension'')"
  by (simp add: operator_plus_def operator_minus_def operator_times_def elementwise_def
      check_compatibility_simps Vector_ctor_simps is_InvalidDimension_def not_mismatch_simps)

theorem elementwise_dimension_zero_witness:
  "dim Vector_default = 0 \<and> dim (snd (Vector_move \<lparr>vl_len = 0, dim = 2, unused = 0, data = [0, 0]\<rparr>)) = 0 \<and>
   operator_plus Vector_default (snd (Vector_move \<lparr>vl_len = 0, dim = 2, unused = 0, data = [0, 0]\<rparr>))
     = Inl (runtime_error ''vector must have at least 1 dimension'') \<and>
   operator_minus Vector_default Vector_default
     = Inl (runtime_error ''vector must have at least 1 dimension'') \<and>
   operator_times Vector_default Vector_default
     = Inl (runtime_error ''vector must have at least 1 dimension'')"
  using elementwise_dimension_zero [of Vector_default "snd (Vector_move \<lparr>vl_len = 0, dim = 2, unused = 0, data = [0, 0]\<rparr>)"]
    elementwise_dimension_zero [of Vector_default Vector_default]
  by (simp add: Vector_default_def Vector_move_def)

end
